theory Spec2Isabelle
  imports Complex_Main
begin

section \<open>Numbers, errors and NumPy helpers\<close>

text \<open>
  The repository is Python on top of NumPy and pandas.  Python integers are modelled as
  \<open>int\<close>.  Floating-point numbers are idealised: a finite float is an exact rational
  (no rounding), extended with the two infinities and NaN where the code can produce or
  receive them.  Every exception of the source is a value \<open>Inl e\<close> of a sum type.
\<close>

datatype py_error = IndexError | ValueError | ZeroDivisionError

datatype npfloat = Fin rat | PInf | NInf | NaN

fun isnan :: "npfloat \<Rightarrow> bool" where
  "isnan NaN = True"
| "isnan _ = False"

text \<open>IEEE comparison \<open>a <= b\<close>: false as soon as one side is NaN.\<close>

fun fle :: "npfloat \<Rightarrow> npfloat \<Rightarrow> bool" where
  "fle NaN _ = False"
| "fle _ NaN = False"
| "fle NInf _ = True"
| "fle _ PInf = True"
| "fle PInf _ = False"
| "fle _ NInf = False"
| "fle (Fin a) (Fin b) = (a \<le> b)"

definition fge :: "npfloat \<Rightarrow> npfloat \<Rightarrow> bool" where
  "fge a b = fle b a"

text \<open>IEEE addition, and division of a float by a positive count (as a mean does).\<close>

fun fadd :: "npfloat \<Rightarrow> npfloat \<Rightarrow> npfloat" where
  "fadd NaN _ = NaN"
| "fadd _ NaN = NaN"
| "fadd PInf NInf = NaN"
| "fadd NInf PInf = NaN"
| "fadd PInf _ = PInf"
| "fadd _ PInf = PInf"
| "fadd NInf _ = NInf"
| "fadd _ NInf = NInf"
| "fadd (Fin a) (Fin b) = Fin (a + b)"

fun fdiv_count :: "npfloat \<Rightarrow> nat \<Rightarrow> npfloat" where
  "fdiv_count (Fin a) n = Fin (a / of_nat n)"
| "fdiv_count x n = x"

definition fsum :: "npfloat list \<Rightarrow> npfloat" where
  "fsum xs = foldl fadd (Fin 0) xs"

text \<open>
  \<open>numpy\<close> true division of an integer array entry by a Python integer: a zero divisor
  gives an infinity or NaN (with a warning), never an exception.
\<close>

definition np_true_divide :: "int \<Rightarrow> int \<Rightarrow> npfloat" where
  "np_true_divide a b =
     (if b \<noteq> 0 then Fin (of_int a / of_int b)
      else if a = 0 then NaN else if 0 < a then PInf else NInf)"

text \<open>Indexing an array with an integer: negative indices count from the end.\<close>

definition np_index :: "'a list \<Rightarrow> int \<Rightarrow> py_error + 'a" where
  "np_index xs i =
     (let n = int (length xs); j = (if i < 0 then i + n else i)
      in if 0 \<le> j \<and> j < n then Inr (xs ! nat j) else Inl IndexError)"

text \<open>A loop body run over a list, stopping at the first exception.\<close>

fun mapE :: "('a \<Rightarrow> py_error + 'b) \<Rightarrow> 'a list \<Rightarrow> py_error + 'b list" where
  "mapE f [] = Inr []"
| "mapE f (x # xs) =
     (case f x of
        Inl e \<Rightarrow> Inl e
      | Inr y \<Rightarrow> (case mapE f xs of Inl e \<Rightarrow> Inl e | Inr ys \<Rightarrow> Inr (y # ys)))"

fun foldE :: "('s \<Rightarrow> 'a \<Rightarrow> py_error + 's) \<Rightarrow> 'a list \<Rightarrow> 's \<Rightarrow> py_error + 's" where
  "foldE f [] s = Inr s"
| "foldE f (x # xs) s = (case f s x of Inl e \<Rightarrow> Inl e | Inr s' \<Rightarrow> foldE f xs s')"

text \<open>Indexing an array with an array of indices (\<open>time_labels[block_starts]\<close>).\<close>

definition np_take :: "'a list \<Rightarrow> int list \<Rightarrow> py_error + 'a list" where
  "np_take xs idx = mapE (np_index xs) idx"

text \<open>\<open>np.mean\<close> of a non-empty integer array.\<close>

definition np_mean_int :: "int list \<Rightarrow> rat" where
  "np_mean_int xs = of_int (sum_list xs) / of_nat (length xs)"

definition np_zeros2 :: "nat \<Rightarrow> rat list list" where
  "np_zeros2 n = replicate n (replicate n 0)"


section \<open>Temporal-dynamics metrics (calculate\_temporal\_metrics\_NoLIM.py)\<close>

subsection \<open>Fractional occupancy\<close>

text \<open>
  \<open>fo = np.array([np.sum(time_labels == i) for i in range(1, n_states + 1)]) / total_timepoints\<close>
\<close>

definition fractional_occupancy :: "int list \<Rightarrow> int \<Rightarrow> int \<Rightarrow> npfloat list" where
  "fractional_occupancy time_labels n_states total_timepoints =
     map (\<lambda>i. np_true_divide (int (count_list time_labels i)) total_timepoints) [1..n_states]"

subsection \<open>Blocks, dwell time and appearance rate\<close>

text \<open>\<open>change_points = np.where(np.diff(time_labels) != 0)[0] + 1\<close>\<close>

definition change_points :: "int list \<Rightarrow> int list" where
  "change_points time_labels =
     map (\<lambda>k. int k + 1)
       (filter (\<lambda>k. time_labels ! (k + 1) - time_labels ! k \<noteq> 0) [0..<length time_labels - 1])"

definition block_starts :: "int list \<Rightarrow> int list" where
  "block_starts time_labels = 0 # change_points time_labels"

definition block_ends :: "int list \<Rightarrow> int \<Rightarrow> int list" where
  "block_ends time_labels total_timepoints = change_points time_labels @ [total_timepoints]"

definition block_lengths :: "int list \<Rightarrow> int \<Rightarrow> int list" where
  "block_lengths time_labels total_timepoints =
     map2 (\<lambda>e s. e - s) (block_ends time_labels total_timepoints) (block_starts time_labels)"

text \<open>\<open>block_states = time_labels[block_starts] - 1\<close>; index 0 of an empty array raises.\<close>

definition block_states :: "int list \<Rightarrow> py_error + int list" where
  "block_states time_labels =
     (case np_take time_labels (block_starts time_labels) of
        Inl e \<Rightarrow> Inl e
      | Inr ls \<Rightarrow> Inr (map (\<lambda>l. l - 1) ls))"

definition scan_length_min :: "int \<Rightarrow> rat \<Rightarrow> rat" where
  "scan_length_min total_timepoints tr_duration_s = (of_int total_timepoints * tr_duration_s) / 60"

text \<open>\<open>block_lengths[block_states == i]\<close>\<close>

definition current_state_block_lengths :: "int list \<Rightarrow> int list \<Rightarrow> int \<Rightarrow> int list" where
  "current_state_block_lengths lengths states i =
     map fst (filter (\<lambda>(l, s). s = i) (zip lengths states))"

text \<open>
  One pass of the loop \<open>for i in range(n_states)\<close>: the pair (dwell time, appearance rate)
  of state \<open>i\<close>.  The appearance rate divides a Python int by a Python float, which raises
  on a zero divisor.
\<close>

definition dt_ar_state :: "int list \<Rightarrow> int list \<Rightarrow> rat \<Rightarrow> rat \<Rightarrow> int \<Rightarrow> py_error + (rat \<times> rat)" where
  "dt_ar_state lengths states tr_duration_s scan_len i =
     (let cur = current_state_block_lengths lengths states i
      in if length cur > 0 then
           (if scan_len = 0 then Inl ZeroDivisionError
            else Inr (np_mean_int cur * tr_duration_s, of_nat (length cur) / scan_len))
         else Inr (0, 0))"

subsection \<open>Transition counts and probabilities\<close>

text \<open>The body of \<open>for t in range(total_timepoints - 1)\<close>.\<close>

definition tp_step :: "int list \<Rightarrow> int \<Rightarrow> rat list list \<Rightarrow> nat \<Rightarrow> py_error + rat list list" where
  "tp_step states_0based n_states tp_matrix t =
     (case np_index states_0based (int t) of
        Inl e \<Rightarrow> Inl e
      | Inr from_state \<Rightarrow>
          (case np_index states_0based (int t + 1) of
             Inl e \<Rightarrow> Inl e
           | Inr to_state \<Rightarrow>
               if 0 \<le> from_state \<and> from_state < n_states \<and> 0 \<le> to_state \<and> to_state < n_states
               then Inr (tp_matrix[nat from_state :=
                           (tp_matrix ! nat from_state)[nat to_state :=
                              tp_matrix ! nat from_state ! nat to_state + 1]])
               else Inr tp_matrix))"

definition transition_counts :: "int list \<Rightarrow> int \<Rightarrow> int \<Rightarrow> py_error + rat list list" where
  "transition_counts time_labels n_states total_timepoints =
     foldE (tp_step (map (\<lambda>l. l - 1) time_labels) n_states)
       [0..<nat (total_timepoints - 1)] (np_zeros2 (nat n_states))"

text \<open>
  \<open>np.divide(m, row_sums, out=np.zeros_like(m), where=row_sums != 0)\<close> with
  \<open>row_sums = m.sum(axis=1, keepdims=True)\<close>.
\<close>

definition divide_rows :: "rat list list \<Rightarrow> rat list list" where
  "divide_rows m =
     map (\<lambda>row. map (\<lambda>x. if sum_list row \<noteq> 0 then x / sum_list row else 0) row) m"

text \<open>\<open>np.fill_diagonal(m, 0)\<close> on a square matrix.\<close>

definition fill_diagonal :: "rat list list \<Rightarrow> rat \<Rightarrow> rat list list" where
  "fill_diagonal m v = map (\<lambda>i. (m ! i)[i := v]) [0..<length m]"

subsection \<open>One subject, and the group\<close>

record metrics =
  fo :: "npfloat list"
  dt :: "rat list"
  ar :: "rat list"
  tp :: "rat list list"
  tp_nopersist :: "rat list list"

text \<open>
  The body of the loop over subjects, for one loaded label sequence, in the order of the
  source: occupancy, \<open>np.zeros(n_states)\<close> (which rejects a negative size), the blocks,
  the loop over states, the transition loop, the two normalisations.
\<close>

definition subject_dynamics :: "int list \<Rightarrow> int \<Rightarrow> rat \<Rightarrow> int \<Rightarrow> py_error + metrics" where
  "subject_dynamics time_labels n_states tr_duration_s total_timepoints =
     (if n_states < 0 then Inl ValueError
      else case block_states time_labels of
        Inl e \<Rightarrow> Inl e
      | Inr states \<Rightarrow>
          (case mapE (dt_ar_state (block_lengths time_labels total_timepoints) states tr_duration_s
                        (scan_length_min total_timepoints tr_duration_s)) [0..n_states - 1] of
             Inl e \<Rightarrow> Inl e
           | Inr dtar \<Rightarrow>
               (case transition_counts time_labels n_states total_timepoints of
                  Inl e \<Rightarrow> Inl e
                | Inr tp_matrix \<Rightarrow>
                    Inr \<lparr> fo = fractional_occupancy time_labels n_states total_timepoints,
                          dt = map fst dtar,
                          ar = map snd dtar,
                          tp = divide_rows tp_matrix,
                          tp_nopersist = divide_rows (fill_diagonal tp_matrix 0) \<rparr>)))"

text \<open>
  The loop over subjects.  \<open>files\<close> is the directory of label files: \<open>None\<close> for a
  subject whose file does not exist (skipped with a warning).
\<close>

fun subjects_loop :: "(int \<Rightarrow> int list option) \<Rightarrow> int \<Rightarrow> rat \<Rightarrow> int \<Rightarrow> int list \<Rightarrow> py_error + metrics list" where
  "subjects_loop files n_states tr_duration_s total_timepoints [] = Inr []"
| "subjects_loop files n_states tr_duration_s total_timepoints (subject_id # rest) =
     (case files subject_id of
        None \<Rightarrow> subjects_loop files n_states tr_duration_s total_timepoints rest
      | Some time_labels \<Rightarrow>
          (case subject_dynamics time_labels n_states tr_duration_s total_timepoints of
             Inl e \<Rightarrow> Inl e
           | Inr m \<Rightarrow>
               (case subjects_loop files n_states tr_duration_s total_timepoints rest of
                  Inl e \<Rightarrow> Inl e
                | Inr ms \<Rightarrow> Inr (m # ms))))"

text \<open>\<open>np.stack(rows).T\<close> for rows of one common length; an empty list raises.\<close>

definition stack_T :: "'a list list \<Rightarrow> py_error + 'a list list" where
  "stack_T rows =
     (case rows of
        [] \<Rightarrow> Inl ValueError
      | r # _ \<Rightarrow> Inr (map (\<lambda>i. map (\<lambda>row. row ! i) rows) [0..<length r]))"

definition stack :: "'a list \<Rightarrow> py_error + 'a list" where
  "stack xs = (case xs of [] \<Rightarrow> Inl ValueError | _ # _ \<Rightarrow> Inr xs)"

record group_metrics =
  fo_all :: "npfloat list list"
  dt_all :: "rat list list"
  ar_all :: "rat list list"
  tp_all :: "rat list list list"
  tp_nopersist_all :: "rat list list list"

definition calculate_dynamics_for_group ::
  "int list \<Rightarrow> (int \<Rightarrow> int list option) \<Rightarrow> int \<Rightarrow> rat \<Rightarrow> int \<Rightarrow> py_error + group_metrics" where
  "calculate_dynamics_for_group subject_list files n_states tr_duration_s total_timepoints =
     (case subjects_loop files n_states tr_duration_s total_timepoints subject_list of
        Inl e \<Rightarrow> Inl e
      | Inr ms \<Rightarrow>
          (case stack_T (map fo ms) of Inl e \<Rightarrow> Inl e | Inr f \<Rightarrow>
           case stack_T (map dt ms) of Inl e \<Rightarrow> Inl e | Inr d \<Rightarrow>
           case stack_T (map ar ms) of Inl e \<Rightarrow> Inl e | Inr a \<Rightarrow>
           case stack (map tp ms) of Inl e \<Rightarrow> Inl e | Inr p \<Rightarrow>
           case stack (map tp_nopersist ms) of Inl e \<Rightarrow> Inl e | Inr q \<Rightarrow>
             Inr \<lparr> fo_all = f, dt_all = d, ar_all = a, tp_all = p, tp_nopersist_all = q \<rparr>))"

text \<open>
  The consistency step of the main script for \<open>thr_0\<close>: \<open>X[:-1, :]\<close> on the three
  (states, subjects) arrays and \<open>X[:, :-1, :-1]\<close> on the two (subjects, states, states)
  tensors.
\<close>

definition drop_last_row :: "'a list list \<Rightarrow> 'a list list" where
  "drop_last_row x = butlast x"

definition drop_last_row_col :: "'a list list list \<Rightarrow> 'a list list list" where
  "drop_last_row_col x = map (\<lambda>m. map butlast (butlast m)) x"

definition remove_nota :: "group_metrics \<Rightarrow> group_metrics" where
  "remove_nota g =
     \<lparr> fo_all = drop_last_row (fo_all g),
       dt_all = drop_last_row (dt_all g),
       ar_all = drop_last_row (ar_all g),
       tp_all = drop_last_row_col (tp_all g),
       tp_nopersist_all = drop_last_row_col (tp_nopersist_all g) \<rparr>"

datatype thre_type = thr_0 | nonthr

fun n_states_of :: "thre_type \<Rightarrow> int" where
  "n_states_of nonthr = 6"
| "n_states_of thr_0 = 7"

definition TOTAL_TIMEPOINTS :: int where
  "TOTAL_TIMEPOINTS = 490"

definition TR_DURATION_S :: rat where
  "TR_DURATION_S = 735 / 1000"

text \<open>One cohort of one pass of the analysis loop of the main script.\<close>

definition process_group :: "thre_type \<Rightarrow> int list \<Rightarrow> (int \<Rightarrow> int list option) \<Rightarrow> py_error + group_metrics" where
  "process_group thre_type subject_list files =
     (case calculate_dynamics_for_group subject_list files (n_states_of thre_type)
             TR_DURATION_S TOTAL_TIMEPOINTS of
        Inl e \<Rightarrow> Inl e
      | Inr g \<Rightarrow> Inr (if thre_type = thr_0 then remove_nota g else g))"


section \<open>Dominant-state classifier (extract\_brain\_states.py, extract\_brain\_states\_noLIM.py)\<close>

text \<open>
  \<open>np.argmax\<close> on a float array, as NumPy's loop runs it: the running maximum is
  replaced by every entry that is not \<open><=\<close> it, and the scan stops at the first NaN.
  An empty array raises.
\<close>

fun argmax_from :: "npfloat \<Rightarrow> nat \<Rightarrow> nat \<Rightarrow> npfloat list \<Rightarrow> nat" where
  "argmax_from mp best i [] = best"
| "argmax_from mp best i (x # xs) =
     (if isnan mp then best
      else if \<not> fle x mp then argmax_from x i (Suc i) xs
      else argmax_from mp best (Suc i) xs)"

definition np_argmax :: "npfloat list \<Rightarrow> py_error + nat" where
  "np_argmax xs = (case xs of [] \<Rightarrow> Inl ValueError | x # rest \<Rightarrow> Inr (argmax_from x 0 1 rest))"

text \<open>
  pandas \<open>Series.mean()\<close>: NaN entries are skipped; the mean of no entries is NaN.
\<close>

definition series_mean :: "npfloat list \<Rightarrow> npfloat" where
  "series_mean vs =
     (let xs = filter (\<lambda>v. \<not> isnan v) vs
      in if xs = [] then NaN else fdiv_count (fsum xs) (length xs))"

text \<open>
  A row of the per-timepoint dataframe: its \<open>value\<close> and its \<open>network_id\<close> (\<open>None\<close>
  where the mapping of the region left NaN).
\<close>

type_synonym df_row = "npfloat \<times> int option"

text \<open>\<open>df[df['network_id'] == i]['value'].mean()\<close>\<close>

definition net_mean :: "df_row list \<Rightarrow> int \<Rightarrow> npfloat" where
  "net_mean df i = series_mean (map fst (filter (\<lambda>r. snd r = Some i) df))"

text \<open>The function \<open>tr_net_labels\<close>; its body is the same in the two scripts.\<close>

definition tr_net_labels :: "df_row list \<Rightarrow> int \<Rightarrow> npfloat \<Rightarrow> py_error + int" where
  "tr_net_labels df nlabels activity_thr =
     (let net_means = map (net_mean df) [1..nlabels - 1]
      in case np_argmax net_means of
           Inl e \<Rightarrow> Inl e
         | Inr idx \<Rightarrow>
             if fge (net_means ! idx) activity_thr then Inr (int idx + 1) else Inr nlabels)"

text \<open>
  The property the classifier is specified by: network \<open>i\<close> is dominant when its mean is
  at least every network mean and at least the threshold (IEEE comparisons).
\<close>

definition dominant :: "df_row list \<Rightarrow> int \<Rightarrow> npfloat \<Rightarrow> int \<Rightarrow> bool" where
  "dominant df nlabels activity_thr i =
     (list_all (\<lambda>j. fle (net_mean df j) (net_mean df i)) [1..nlabels - 1]
      \<and> fge (net_mean df i) activity_thr)"


section \<open>Excluding a network (extract\_brain\_states\_noLIM.py)\<close>

definition original_labels :: "string list" where
  "original_labels =
     [''Vis'', ''SomMot'', ''DorsAttn'', ''VentAttn'', ''Limbic'', ''Frontoparietal'',
      ''Default'', ''NOTA'']"

definition limbic_label_name :: string where
  "limbic_label_name = ''Limbic''"

text \<open>\<open>list.index\<close>: the first position of an element, \<open>ValueError\<close> when absent.\<close>

fun list_index :: "'a list \<Rightarrow> 'a \<Rightarrow> py_error + nat" where
  "list_index [] y = Inl ValueError"
| "list_index (x # xs) y =
     (if x = y then Inr 0
      else case list_index xs y of Inl e \<Rightarrow> Inl e | Inr k \<Rightarrow> Inr (Suc k))"

text \<open>An atlas table: one row (\<open>ROI\<close>, \<open>network_id\<close>) per region.\<close>

type_synonym atlas = "(int \<times> int) list"

text \<open>\<open>limbic_id = original_labels.index(limbic_label_name) + 1\<close>\<close>

definition limbic_id_of :: "string list \<Rightarrow> string \<Rightarrow> py_error + int" where
  "limbic_id_of all_labels name =
     (case list_index all_labels name of Inl e \<Rightarrow> Inl e | Inr k \<Rightarrow> Inr (int k + 1))"

text \<open>\<open>sorted(atlas_order['network_id'].unique())\<close>\<close>

definition unique_old_ids :: "atlas \<Rightarrow> int list" where
  "unique_old_ids filtered = sort (remdups (map snd filtered))"

text \<open>
  \<open>{old_id: new_id for new_id, old_id in enumerate(unique_old_ids, 1)}\<close>, as the list of
  its (key, value) pairs; the keys are distinct.
\<close>

definition old_to_new_id_map :: "int list \<Rightarrow> (int \<times> int) list" where
  "old_to_new_id_map ids = zip ids [1..int (length ids)]"

record nolim_config =
  cfg_limbic_id :: int
  cfg_labels :: "string list"
  cfg_nlabels :: int
  cfg_rois_to_keep_indices :: "int list"
  cfg_old_to_new :: "(int \<times> int) list"
  cfg_atlas_order :: "(int \<times> int option) list"

text \<open>
  The configuration block of the script, for a list of labels, the name of the network to
  exclude and the atlas table read from the CSV file.  A \<open>network_id\<close> that the
  renumbering dictionary does not hold becomes NaN (\<open>None\<close>).
\<close>

definition exclude_network :: "string list \<Rightarrow> string \<Rightarrow> atlas \<Rightarrow> py_error + nolim_config" where
  "exclude_network all_labels name original_atlas_order =
     (case limbic_id_of all_labels name of
        Inl e \<Rightarrow> Inl e
      | Inr limbic_id \<Rightarrow>
          (let filtered = filter (\<lambda>r. snd r \<noteq> limbic_id) original_atlas_order;
               labels = filter (\<lambda>label. label \<noteq> name) all_labels;
               m = old_to_new_id_map (unique_old_ids filtered)
           in Inr \<lparr> cfg_limbic_id = limbic_id,
                    cfg_labels = labels,
                    cfg_nlabels = int (length labels),
                    cfg_rois_to_keep_indices = map (\<lambda>r. fst r - 1) filtered,
                    cfg_old_to_new = m,
                    cfg_atlas_order = map (\<lambda>r. (fst r, map_of m (snd r))) filtered \<rparr>))"

definition nolim_configuration :: "atlas \<Rightarrow> py_error + nolim_config" where
  "nolim_configuration original_atlas_order =
     exclude_network original_labels limbic_label_name original_atlas_order"


section \<open>State maps (extract\_brain\_states.py, extract\_brain\_states\_noLIM.py)\<close>

text \<open>
  The z-scored activity matrix \<open>ttss\<close> is a list of rows, one per timepoint, each with
  one value per region.  The z-scoring itself is a library call and is not modelled; a
  region that is constant over the scan comes out of it as a column of NaN.
\<close>

definition LABELS :: "string list" where
  "LABELS = original_labels"

text \<open>\<open>dict(zip(keys, values))\<close> looked up at a key: the last pair with this key wins.\<close>

definition dict_get :: "('k \<times> 'v) list \<Rightarrow> 'k \<Rightarrow> 'v option" where
  "dict_get pairs k = map_of (rev pairs) k"

text \<open>
  The \<open>network_id\<close> column of the dataframe, for the regions \<open>1..n\<close> of the matrix.  The
  unfiltered script looks the region number up in \<open>roi2id\<close>; the filtered script first
  goes from the column position to the original \<open>ROI\<close> of the filtered atlas.
\<close>

definition network_ids_plain :: "atlas \<Rightarrow> nat \<Rightarrow> int option list" where
  "network_ids_plain atlas_order n = map (\<lambda>r. dict_get atlas_order (int r + 1)) [0..<n]"

definition network_ids_nolim :: "(int \<times> int option) list \<Rightarrow> nat \<Rightarrow> int option list" where
  "network_ids_nolim atlas_order n =
     map (\<lambda>r. if r < length atlas_order
               then (case dict_get atlas_order (fst (atlas_order ! r)) of
                       None \<Rightarrow> None | Some v \<Rightarrow> v)
               else None) [0..<n]"

text \<open>The loop \<open>for tr in range(n_timepoints)\<close> that labels every timepoint.\<close>

definition label_timepoints :: "int option list \<Rightarrow> npfloat list list \<Rightarrow> int \<Rightarrow> npfloat \<Rightarrow> py_error + int list" where
  "label_timepoints ids ttss nlabels activity_thr =
     mapE (\<lambda>row. tr_net_labels (zip row ids) nlabels activity_thr) ttss"

text \<open>\<open>np.mean(rows, axis=0)\<close> of a non-empty selection of rows, and \<open>np.zeros(n)\<close>.\<close>

definition mean_axis0 :: "npfloat list list \<Rightarrow> nat \<Rightarrow> npfloat list" where
  "mean_axis0 rows n =
     map (\<lambda>r. fdiv_count (fsum (map (\<lambda>row. row ! r) rows)) (length rows)) [0..<n]"

definition zeros :: "nat \<Rightarrow> npfloat list" where
  "zeros n = replicate n (Fin 0)"

text \<open>
  The mean activity pattern of the state with 0-based position \<open>i\<close> in the label list:
  the mask is \<open>time_labels == i + 1\<close>.
\<close>

definition state_mean :: "npfloat list list \<Rightarrow> nat \<Rightarrow> int list \<Rightarrow> nat \<Rightarrow> npfloat list" where
  "state_mean ttss curr_n_rois time_labels i =
     (let mask = map (\<lambda>l. l = int i + 1) time_labels
      in if length (filter id mask) > 0
         then mean_axis0 (map fst (filter snd (zip ttss mask))) curr_n_rois
         else zeros curr_n_rois)"

record state_row =
  row_ROI :: int
  row_network_id :: "int option"
  row_subject :: int
  row_state :: string
  row_value :: npfloat

text \<open>
  The block \<open>tmp_df\<close> of one state: the atlas columns with the subject, the state name and
  the values; pandas rejects a value column of another length than the table.
\<close>

definition tmp_df :: "(int \<times> int option) list \<Rightarrow> int \<Rightarrow> string \<Rightarrow> npfloat list \<Rightarrow> py_error + state_row list" where
  "tmp_df atlas_order subj_id state vals =
     (if length vals \<noteq> length atlas_order then Inl ValueError
      else Inr (map2 (\<lambda>r v. \<lparr> row_ROI = fst r, row_network_id = snd r, row_subject = subj_id,
                               row_state = state, row_value = v \<rparr>) atlas_order vals))"

text \<open>
  The loop over the states of one subject in the filtered script: a state map is appended
  unless it is entirely NaN.
\<close>

definition state_maps_nolim ::
  "(int \<times> int option) list \<Rightarrow> string list \<Rightarrow> int \<Rightarrow> npfloat list list \<Rightarrow> nat \<Rightarrow> int list \<Rightarrow> py_error + state_row list" where
  "state_maps_nolim atlas_order labels subj_id ttss curr_n_rois time_labels =
     foldE (\<lambda>all_states i.
              let sm = state_mean ttss curr_n_rois time_labels i
              in if \<not> list_all isnan sm
                 then (case tmp_df atlas_order subj_id (labels ! i) sm of
                         Inl e \<Rightarrow> Inl e | Inr block \<Rightarrow> Inr (all_states @ block))
                 else Inr all_states)
       [0..<length labels] []"

text \<open>The same loop in the unfiltered script: every state map is appended.\<close>

definition state_maps_plain ::
  "(int \<times> int option) list \<Rightarrow> string list \<Rightarrow> int \<Rightarrow> npfloat list list \<Rightarrow> nat \<Rightarrow> int list \<Rightarrow> py_error + state_row list" where
  "state_maps_plain atlas_order labels subj_id ttss n_rois_curr time_labels =
     foldE (\<lambda>group_states i.
              case tmp_df atlas_order subj_id (labels ! i)
                     (state_mean ttss n_rois_curr time_labels i) of
                Inl e \<Rightarrow> Inl e | Inr block \<Rightarrow> Inr (group_states @ block))
       [0..<length labels] []"

text \<open>
  One subject of each script, from the z-scored matrix on: the labels of the timepoints,
  then the state maps.  The threshold of both scripts is 0.
\<close>

definition activity_thr :: npfloat where
  "activity_thr = Fin 0"

definition subject_plain :: "atlas \<Rightarrow> int \<Rightarrow> npfloat list list \<Rightarrow> nat \<Rightarrow> py_error + (int list \<times> state_row list)" where
  "subject_plain atlas_order subj_id ttss n_rois_curr =
     (case label_timepoints (network_ids_plain atlas_order n_rois_curr) ttss
             (int (length LABELS)) activity_thr of
        Inl e \<Rightarrow> Inl e
      | Inr time_labels \<Rightarrow>
          (case state_maps_plain (map (\<lambda>r. (fst r, Some (snd r))) atlas_order) LABELS subj_id
                  ttss n_rois_curr time_labels of
             Inl e \<Rightarrow> Inl e
           | Inr table \<Rightarrow> Inr (time_labels, table)))"

definition subject_nolim :: "nolim_config \<Rightarrow> int \<Rightarrow> npfloat list list \<Rightarrow> py_error + (int list \<times> state_row list)" where
  "subject_nolim cfg subj_id ttss =
     (let curr_n_rois = length (cfg_atlas_order cfg)
      in case label_timepoints (network_ids_nolim (cfg_atlas_order cfg) curr_n_rois) ttss
                (cfg_nlabels cfg) activity_thr of
           Inl e \<Rightarrow> Inl e
         | Inr time_labels \<Rightarrow>
             (case state_maps_nolim (cfg_atlas_order cfg) (cfg_labels cfg) subj_id
                     ttss curr_n_rois time_labels of
                Inl e \<Rightarrow> Inl e
              | Inr table \<Rightarrow> Inr (time_labels, table)))"


section \<open>Specification-side definitions\<close>

text \<open>A matrix with \<open>n\<close> rows of length \<open>n\<close>.\<close>

definition square :: "nat \<Rightarrow> 'a list list \<Rightarrow> bool" where
  "square n c = (length c = n \<and> list_all (\<lambda>row. length row = n) c)"

text \<open>
  Fractional occupancy as the specification words it: the count of the timepoints labelled
  \<open>i\<close> over the length of the sequence.
\<close>

definition spec_fractional_occupancy :: "int list \<Rightarrow> int \<Rightarrow> npfloat list" where
  "spec_fractional_occupancy time_labels n_states =
     map (\<lambda>i. Fin (of_nat (count_list time_labels i) / of_nat (length time_labels))) [1..n_states]"

text \<open>
  The occupancy values of the code as rationals, for a nonzero \<open>total_timepoints\<close>, and
  the test that a label lies in \<open>[1, K]\<close>.
\<close>

definition occupancy_values :: "int list \<Rightarrow> int \<Rightarrow> int \<Rightarrow> rat list" where
  "occupancy_values time_labels n_states total_timepoints =
     map (\<lambda>i. of_nat (count_list time_labels i) / of_int total_timepoints) [1..n_states]"

definition in_range :: "int \<Rightarrow> int \<Rightarrow> bool" where
  "in_range n_states l = (1 \<le> l \<and> l \<le> n_states)"


text \<open>The label sequences of the subjects whose file exists, in the order of the list.\<close>

definition loaded_sequences :: "(int \<Rightarrow> int list option) \<Rightarrow> int list \<Rightarrow> int list list" where
  "loaded_sequences files subject_list = List.map_filter files subject_list"

text \<open>The rows that one stored state map contributes to the table.\<close>

definition state_block :: "(int \<times> int option) list \<Rightarrow> int \<Rightarrow> string \<Rightarrow> npfloat list \<Rightarrow> state_row list" where
  "state_block atlas_order subj_id state vals =
     map2 (\<lambda>r v. \<lparr> row_ROI = fst r, row_network_id = snd r, row_subject = subj_id,
                     row_state = state, row_value = v \<rparr>) atlas_order vals"

text \<open>
  The mean of a network as the specification words it: the values of the rows of the
  network, and the arithmetic mean (sum over count) of those that are numbers.
\<close>

definition network_values :: "df_row list \<Rightarrow> int \<Rightarrow> npfloat list" where
  "network_values df i = map fst (filter (\<lambda>r. snd r = Some i) df)"

fun finite_values :: "npfloat list \<Rightarrow> rat list" where
  "finite_values [] = []"
| "finite_values (Fin q # vs) = q # finite_values vs"
| "finite_values (v # vs) = finite_values vs"

definition arithmetic_mean :: "rat list \<Rightarrow> rat" where
  "arithmetic_mean qs = sum_list qs / of_nat (length qs)"

definition no_infinity :: "npfloat list \<Rightarrow> bool" where
  "no_infinity vs = list_all (\<lambda>v. v \<noteq> PInf \<and> v \<noteq> NInf) vs"

text \<open>
  The label as the specification words it, for networks with the means \<open>mu\<close> and the
  threshold \<open>tau\<close>: the first network of \<open>1..nlabels-1\<close> whose mean is the maximum and
  at least the threshold, else the reject identifier \<open>nlabels\<close>.
\<close>

definition spec_label :: "(int \<Rightarrow> rat) \<Rightarrow> int \<Rightarrow> rat \<Rightarrow> int" where
  "spec_label mu nlabels tau =
     (case find (\<lambda>i. list_all (\<lambda>j. mu j \<le> mu i) [1..nlabels - 1] \<and> tau \<le> mu i)
             [1..nlabels - 1] of
        Some i \<Rightarrow> i | None \<Rightarrow> nlabels)"


section \<open>Verification: helper lemmas\<close>

subsection \<open>Loops with exceptions\<close>

lemma mapE_Inr:
  "mapE f xs = Inr ys \<Longrightarrow> length ys = length xs \<and> (\<forall>k<length xs. f (xs ! k) = Inr (ys ! k))"
proof (induction xs arbitrary: ys)
  case Nil
  then show ?case by simp
next
  case (Cons x xs)
  from Cons.prems obtain y ys' where fx: "f x = Inr y" and rest: "mapE f xs = Inr ys'"
    and ys: "ys = y # ys'"
    by (auto split: sum.splits)
  from Cons.IH [OF rest] have len: "length ys' = length xs"
    and nth: "\<forall>k<length xs. f (xs ! k) = Inr (ys' ! k)" by simp_all
  show ?case
  proof (intro conjI allI impI)
    show "length ys = length (x # xs)" using len ys by simp
  next
    fix k assume "k < length (x # xs)"
    then show "f ((x # xs) ! k) = Inr (ys ! k)"
      using fx nth ys by (cases k) simp_all
  qed
qed

lemma mapE_total:
  "(\<And>x. x \<in> set xs \<Longrightarrow> \<exists>y. f x = Inr y) \<Longrightarrow> \<exists>ys. mapE f xs = Inr ys"
proof (induction xs)
  case Nil
  then show ?case by simp
next
  case (Cons x xs)
  then obtain y where "f x = Inr y" by fastforce
  moreover from Cons obtain ys where "mapE f xs = Inr ys" by fastforce
  ultimately show ?case by simp
qed


lemma foldE_invariant:
  assumes "foldE f xs s = Inr s'" and "P s"
    and "\<And>a x b. P a \<Longrightarrow> x \<in> set xs \<Longrightarrow> f a x = Inr b \<Longrightarrow> P b"
  shows "P s'"
  using assms
proof (induction xs arbitrary: s)
  case Nil
  then show ?case by simp
next
  case (Cons x xs)
  from Cons.prems(1) obtain s1 where step: "f s x = Inr s1" and rest: "foldE f xs s1 = Inr s'"
    by (auto split: sum.splits)
  have "P s1" using Cons.prems(3) [OF Cons.prems(2) _ step] by simp
  show ?case
  proof (rule Cons.IH [OF rest \<open>P s1\<close>])
    fix a z b assume "P a" "z \<in> set xs" "f a z = Inr b"
    then show "P b" using Cons.prems(3) [of a z b] by simp
  qed
qed


subsection \<open>Row normalisation and the diagonal\<close>

lemma sum_list_divide_const:
  fixes s :: rat
  shows "sum_list (map (\<lambda>x. x / s) row) = sum_list row / s"
  by (induction row) (simp_all add: add_divide_distrib)

lemma divide_rows_length: "length (divide_rows m) = length m"
  by (simp add: divide_rows_def)

lemma divide_rows_row:
  assumes "i < length m"
  shows "(sum_list (m ! i) \<noteq> 0 \<longrightarrow> sum_list (divide_rows m ! i) = 1)
       \<and> (sum_list (m ! i) = 0 \<longrightarrow> divide_rows m ! i = replicate (length (m ! i)) 0)"
proof -
  have row: "divide_rows m ! i =
      map (\<lambda>x. if sum_list (m ! i) \<noteq> 0 then x / sum_list (m ! i) else 0) (m ! i)"
    using assms by (simp add: divide_rows_def)
  show ?thesis
  proof (cases "sum_list (m ! i) = 0")
    case True
    then show ?thesis using row by (simp add: map_replicate_const)
  next
    case False
    then have "divide_rows m ! i = map (\<lambda>x. x / sum_list (m ! i)) (m ! i)"
      using row by simp
    then show ?thesis using False by (simp add: sum_list_divide_const)
  qed
qed

lemma divide_rows_entry:
  "i < length m \<Longrightarrow> j < length (m ! i) \<Longrightarrow>
   divide_rows m ! i ! j = (if sum_list (m ! i) \<noteq> 0 then m ! i ! j / sum_list (m ! i) else 0)"
  by (simp add: divide_rows_def)

lemma fill_diagonal_length: "length (fill_diagonal m v) = length m"
  by (simp add: fill_diagonal_def)

lemma fill_diagonal_row: "i < length m \<Longrightarrow> fill_diagonal m v ! i = (m ! i)[i := v]"
  by (simp add: fill_diagonal_def)

subsection \<open>The transition-count loop\<close>

lemma np_index_in_set: "np_index xs i = Inr v \<Longrightarrow> v \<in> set xs"
  by (auto simp: np_index_def Let_def split: if_splits)

lemma np_index_nat: "np_index xs (int t) = (if t < length xs then Inr (xs ! t) else Inl IndexError)"
  by (simp add: np_index_def Let_def)

lemma np_index_Suc: "np_index xs (int t + 1) = (if Suc t < length xs then Inr (xs ! Suc t) else Inl IndexError)"
proof -
  have "int t + 1 = int (Suc t)" by simp
  then show ?thesis using np_index_nat [of xs "Suc t"] by metis
qed


lemma square_zeros: "square n (np_zeros2 n)"
  by (simp add: square_def np_zeros2_def list_all_iff)

lemma square_row: "square n c \<Longrightarrow> r < n \<Longrightarrow> length (c ! r) = n"
  by (simp add: square_def list_all_length)

lemma square_update:
  assumes "square n c"
  shows "square n (c[r := (c ! r)[k := v]])"
proof -
  have len: "length c = n" and rows: "\<forall>i<n. length (c ! i) = n"
    using assms by (simp_all add: square_def list_all_length)
  have "\<forall>i<n. length (c[r := (c ! r)[k := v]] ! i) = n"
  proof (intro allI impI)
    fix i assume i: "i < n"
    show "length (c[r := (c ! r)[k := v]] ! i) = n"
    proof (cases "i = r")
      case True
      then show ?thesis using i len rows by simp
    next
      case False
      then show ?thesis using i rows by simp
    qed
  qed
  then show ?thesis using len by (simp add: square_def list_all_length)
qed

lemma tp_step_square:
  assumes "tp_step st n c t = Inr c'" and "square k c"
  shows "square k c'"
  using assms square_update [OF assms(2)]
  by (auto simp: tp_step_def split: sum.splits if_splits)

lemma transition_counts_square:
  assumes "transition_counts ls K T = Inr c"
  shows "square (nat K) c"
proof (rule foldE_invariant [where P = "square (nat K)"])
  show "foldE (tp_step (map (\<lambda>l. l - 1) ls) K) [0..<nat (T - 1)] (np_zeros2 (nat K)) = Inr c"
    using assms by (simp add: transition_counts_def)
  show "square (nat K) (np_zeros2 (nat K))" by (rule square_zeros)
  fix a x b
  assume "square (nat K) a" and "tp_step (map (\<lambda>l. l - 1) ls) K a x = Inr b"
  then show "square (nat K) b" using tp_step_square by blast
qed

text \<open>A row whose state never occurs in the sequence is never incremented.\<close>

lemma tp_step_Inr:
  assumes "tp_step st K c t = Inr c'"
  shows "c' = c \<or> (\<exists>from_state to_state. np_index st (int t) = Inr from_state
            \<and> np_index st (int t + 1) = Inr to_state
            \<and> 0 \<le> from_state \<and> from_state < K \<and> 0 \<le> to_state \<and> to_state < K
            \<and> c' = c[nat from_state := (c ! nat from_state)[nat to_state :=
                         c ! nat from_state ! nat to_state + 1]])"
proof (cases "np_index st (int t)")
  case (Inl e)
  then show ?thesis using assms by (simp add: tp_step_def)
next
  case f: (Inr from_state)
  show ?thesis
  proof (cases "np_index st (int t + 1)")
    case (Inl e)
    then show ?thesis using assms f by (simp add: tp_step_def)
  next
    case (Inr to_state)
    then show ?thesis using assms f by (simp add: tp_step_def split: if_splits)
  qed
qed

lemma tp_step_absent_row:
  assumes step: "tp_step (map (\<lambda>l. l - 1) ls) K c t = Inr c'"
    and absent: "s \<notin> set ls" and s: "1 \<le> s"
  shows "c' ! nat (s - 1) = c ! nat (s - 1)"
proof -
  from tp_step_Inr [OF step] show ?thesis
  proof
    assume "c' = c"
    then show ?thesis by simp
  next
    assume "\<exists>from_state to_state. np_index (map (\<lambda>l. l - 1) ls) (int t) = Inr from_state
            \<and> np_index (map (\<lambda>l. l - 1) ls) (int t + 1) = Inr to_state
            \<and> 0 \<le> from_state \<and> from_state < K \<and> 0 \<le> to_state \<and> to_state < K
            \<and> c' = c[nat from_state := (c ! nat from_state)[nat to_state :=
                         c ! nat from_state ! nat to_state + 1]]"
    then obtain from_state to_state where
      f: "np_index (map (\<lambda>l. l - 1) ls) (int t) = Inr from_state" and nonneg: "0 \<le> from_state"
      and c': "c' = c[nat from_state := (c ! nat from_state)[nat to_state :=
                         c ! nat from_state ! nat to_state + 1]]"
      by blast
    from np_index_in_set [OF f] have "from_state + 1 \<in> set ls" by auto
    then have "from_state \<noteq> s - 1" using absent by auto
    then have "nat from_state \<noteq> nat (s - 1)" using s nonneg by simp
    then show ?thesis using c' by simp
  qed
qed

lemma transition_counts_absent_row:
  assumes tc: "transition_counts ls K T = Inr c"
    and absent: "s \<notin> set ls" and s: "1 \<le> s" "s \<le> K"
  shows "c ! nat (s - 1) = replicate (nat K) 0"
proof (rule foldE_invariant [where P = "\<lambda>c. c ! nat (s - 1) = replicate (nat K) 0"])
  show "foldE (tp_step (map (\<lambda>l. l - 1) ls) K) [0..<nat (T - 1)] (np_zeros2 (nat K)) = Inr c"
    using tc by (simp add: transition_counts_def)
  show "np_zeros2 (nat K) ! nat (s - 1) = replicate (nat K) 0"
    using s by (simp add: np_zeros2_def)
  fix a x b
  assume "a ! nat (s - 1) = replicate (nat K) 0"
    and "tp_step (map (\<lambda>l. l - 1) ls) K a x = Inr b"
  then show "b ! nat (s - 1) = replicate (nat K) 0"
    using tp_step_absent_row [OF _ absent s(1)] by simp
qed

lemma subject_dynamics_Inr:
  assumes "subject_dynamics ls K tr T = Inr m"
  obtains states dtar c where
    "0 \<le> K" "block_states ls = Inr states"
    "mapE (dt_ar_state (block_lengths ls T) states tr (scan_length_min T tr)) [0..K - 1] = Inr dtar"
    "transition_counts ls K T = Inr c"
    "m = \<lparr> fo = fractional_occupancy ls K T, dt = map fst dtar, ar = map snd dtar,
           tp = divide_rows c, tp_nopersist = divide_rows (fill_diagonal c 0) \<rparr>"
  using assms by (auto simp: subject_dynamics_def split: if_splits sum.splits)

lemma fill_diagonal_square: "square n c \<Longrightarrow> square n (fill_diagonal c v)"
  by (simp add: square_def fill_diagonal_def list_all_length)

lemma subject_dynamics_tp:
  assumes "subject_dynamics ls K tr T = Inr m" and "transition_counts ls K T = Inr c"
  shows "tp m = divide_rows c" and "tp_nopersist m = divide_rows (fill_diagonal c 0)"
  using assms by (auto elim!: subject_dynamics_Inr)


section \<open>Verification: the temporal-dynamics metrics\<close>

text \<open>
  Claim C3.  For every label sequence on which the metrics are returned, each row of the
  self-inclusive and of the self-exclusive transition-probability matrix sums to 1 when the
  row of counts it is computed from has a nonzero sum, and is entirely zero otherwise: the
  guarded division leaves the zeros of the output array in place.
\<close>

theorem transition_rows_sum_to_one_or_zero:
  assumes run: "subject_dynamics time_labels n_states tr_duration_s total_timepoints = Inr m"
    and counts: "transition_counts time_labels n_states total_timepoints = Inr c"
    and i: "i < nat n_states"
  shows "length (tp m) = nat n_states \<and> length (tp_nopersist m) = nat n_states
       \<and> (if sum_list (c ! i) \<noteq> 0 then sum_list (tp m ! i) = 1
          else tp m ! i = replicate (nat n_states) 0)
       \<and> (if sum_list (fill_diagonal c 0 ! i) \<noteq> 0 then sum_list (tp_nopersist m ! i) = 1
          else tp_nopersist m ! i = replicate (nat n_states) 0)"
proof -
  have sq: "square (nat n_states) c" by (rule transition_counts_square [OF counts])
  then have sq': "square (nat n_states) (fill_diagonal c 0)" by (rule fill_diagonal_square)
  have len: "length c = nat n_states" "length (fill_diagonal c 0) = nat n_states"
    using sq sq' by (simp_all add: square_def)
  have rows: "length (c ! i) = nat n_states" "length (fill_diagonal c 0 ! i) = nat n_states"
    using square_row [OF sq i] square_row [OF sq' i] by simp_all
  have tp: "tp m = divide_rows c" and tpn: "tp_nopersist m = divide_rows (fill_diagonal c 0)"
    using subject_dynamics_tp [OF run counts] by simp_all
  have "i < length c" "i < length (fill_diagonal c 0)" using i len by simp_all
  from divide_rows_row [OF this(1)] divide_rows_row [OF this(2)]
  show ?thesis using tp tpn len rows by (simp add: divide_rows_length)
qed

theorem transition_rows_sum_to_one_or_zero_witness:
  "subject_dynamics [1, 1, 2] 3 1 3 =
     Inr \<lparr> fo = [Fin (2 / 3), Fin (1 / 3), Fin 0], dt = [2, 1, 0], ar = [20, 20, 0],
           tp = [[1 / 2, 1 / 2, 0], [0, 0, 0], [0, 0, 0]],
           tp_nopersist = [[0, 1, 0], [0, 0, 0], [0, 0, 0]] \<rparr>
   \<and> transition_counts [1, 1, 2] 3 3 = Inr [[1, 1, 0], [0, 0, 0], [0, 0, 0]]
   \<and> sum_list [1 / 2, 1 / 2, 0 :: rat] = 1 \<and> sum_list [0, 1, 0 :: rat] = 1"
proof -
  have run: "subject_dynamics [1, 1, 2] 3 1 3 =
     Inr \<lparr> fo = [Fin (2 / 3), Fin (1 / 3), Fin 0], dt = [2, 1, 0], ar = [20, 20, 0],
           tp = [[1 / 2, 1 / 2, 0], [0, 0, 0], [0, 0, 0]],
           tp_nopersist = [[0, 1, 0], [0, 0, 0], [0, 0, 0]] \<rparr>"
    by code_simp
  have counts: "transition_counts [1, 1, 2] 3 3 = Inr [[1, 1, 0], [0, 0, 0], [0, 0, 0]]"
    by code_simp
  have i: "(0 :: nat) < nat 3" by simp
  show ?thesis
    using transition_rows_sum_to_one_or_zero [OF run counts i] run counts by simp
qed

text \<open>
  Claim C8.  The diagonal of the count matrix is zeroed before the rows are normalised, so
  every diagonal entry of the self-exclusive transition-probability matrix is 0.
\<close>

theorem nopersist_diagonal_zero:
  assumes run: "subject_dynamics time_labels n_states tr_duration_s total_timepoints = Inr m"
    and counts: "transition_counts time_labels n_states total_timepoints = Inr c"
    and i: "i < nat n_states"
  shows "tp_nopersist m = divide_rows (fill_diagonal c 0)
       \<and> fill_diagonal c 0 ! i ! i = 0 \<and> tp_nopersist m ! i ! i = 0"
proof -
  have sq: "square (nat n_states) c" by (rule transition_counts_square [OF counts])
  then have len: "length c = nat n_states" by (simp add: square_def)
  have row: "length (c ! i) = nat n_states" by (rule square_row [OF sq i])
  have tpn: "tp_nopersist m = divide_rows (fill_diagonal c 0)"
    using subject_dynamics_tp [OF run counts] by simp
  have fd: "fill_diagonal c 0 ! i = (c ! i)[i := 0]"
    using fill_diagonal_row i len by simp
  then have z: "fill_diagonal c 0 ! i ! i = 0" using i row by simp
  have "divide_rows (fill_diagonal c 0) ! i ! i =
      (if sum_list (fill_diagonal c 0 ! i) \<noteq> 0
       then fill_diagonal c 0 ! i ! i / sum_list (fill_diagonal c 0 ! i) else 0)"
    using i len row fd by (simp add: divide_rows_entry fill_diagonal_length)
  then show ?thesis using tpn z by simp
qed

theorem nopersist_diagonal_zero_witness:
  "subject_dynamics [1, 1, 2, 1] 2 1 4 =
     Inr \<lparr> fo = [Fin (3 / 4), Fin (1 / 4)], dt = [3 / 2, 1], ar = [30, 15],
           tp = [[1 / 2, 1 / 2], [1, 0]], tp_nopersist = [[0, 1], [1, 0]] \<rparr>
   \<and> transition_counts [1, 1, 2, 1] 2 4 = Inr [[1, 1], [1, 0]]
   \<and> fill_diagonal [[1, 1], [1, 0]] 0 ! 0 ! 0 = 0
   \<and> [[0, 1], [1, 0 :: rat]] ! 0 ! 0 = 0"
proof -
  have run: "subject_dynamics [1, 1, 2, 1] 2 1 4 =
     Inr \<lparr> fo = [Fin (3 / 4), Fin (1 / 4)], dt = [3 / 2, 1], ar = [30, 15],
           tp = [[1 / 2, 1 / 2], [1, 0]], tp_nopersist = [[0, 1], [1, 0]] \<rparr>"
    by code_simp
  have counts: "transition_counts [1, 1, 2, 1] 2 4 = Inr [[1, 1], [1, 0]]"
    by code_simp
  have i: "(0 :: nat) < nat 2" by simp
  have "fill_diagonal [[1, 1], [1, 0]] 0 ! 0 ! 0 = 0 \<and> [[0, 1], [1, 0 :: rat]] ! 0 ! 0 = 0"
    using nopersist_diagonal_zero [OF run counts i, THEN conjunct2] by simp
  then show ?thesis using run counts by simp
qed

text \<open>
  Claim C7 (as amended).  The sequence \<open>[1,1,1,2,2,1]\<close> with two states, a sampling
  interval of 1 second and 6 timepoints: occupancy \<open>[4/6, 2/6]\<close>; blocks \<open>[0,3)\<close>,
  \<open>[3,5)\<close>, \<open>[5,6)\<close> of the states 1, 2, 1; dwell time 2 seconds for state 1 (mean of
  the lengths 3 and 1) and 2 seconds for state 2 (its one block has length 2); appearance
  rates 2 and 1 blocks over a scan of \<open>6/60\<close> minutes.
\<close>

theorem scenario_one_metrics:
  "subject_dynamics [1, 1, 1, 2, 2, 1] 2 1 6 =
     Inr \<lparr> fo = [Fin (4 / 6), Fin (2 / 6)], dt = [2, 2], ar = [2 / (6 / 60), 1 / (6 / 60)],
           tp = [[2 / 3, 1 / 3], [1 / 2, 1 / 2]], tp_nopersist = [[0, 1], [1, 0]] \<rparr>
   \<and> block_starts [1, 1, 1, 2, 2, 1] = [0, 3, 5]
   \<and> block_ends [1, 1, 1, 2, 2, 1] 6 = [3, 5, 6]
   \<and> block_states [1, 1, 1, 2, 2, 1] = Inr [0, 1, 0]
   \<and> block_lengths [1, 1, 1, 2, 2, 1] 6 = [3, 2, 1]
   \<and> scan_length_min 6 1 = 6 / 60"
  by code_simp

text \<open>
  The dwell time of state 2 in this scenario is not the 1 second that the scenario is
  stated with.
\<close>

theorem scenario_one_dwell_counterexample:
  "map_sum id dt (subject_dynamics [1, 1, 1, 2, 2, 1] 2 1 6) = Inr [2, 2]
   \<and> map_sum id dt (subject_dynamics [1, 1, 1, 2, 2, 1] 2 1 6) \<noteq> Inr [2, 1]"
  by code_simp

subsection \<open>States that never occur\<close>

lemma mapE_set:
  "mapE f xs = Inr ys \<Longrightarrow> (\<And>x y. x \<in> set xs \<Longrightarrow> f x = Inr y \<Longrightarrow> y \<in> A) \<Longrightarrow> set ys \<subseteq> A"
proof (induction xs arbitrary: ys)
  case Nil
  then show ?case by simp
next
  case (Cons x xs)
  from Cons.prems(1) obtain y ys' where fx: "f x = Inr y" and rest: "mapE f xs = Inr ys'"
    and ys: "ys = y # ys'"
    by (auto split: sum.splits)
  have "y \<in> A" using Cons.prems(2) [of x y] fx by simp
  moreover have "set ys' \<subseteq> A"
  proof (rule Cons.IH [OF rest])
    fix z w assume "z \<in> set xs" "f z = Inr w"
    then show "w \<in> A" using Cons.prems(2) [of z w] by simp
  qed
  ultimately show ?case using ys by simp
qed

lemma block_states_subset:
  assumes "block_states ls = Inr states"
  shows "set states \<subseteq> (\<lambda>l. l - 1) ` set ls"
proof -
  from assms obtain vs where take: "np_take ls (block_starts ls) = Inr vs"
    and st: "states = map (\<lambda>l. l - 1) vs"
    by (auto simp: block_states_def split: sum.splits)
  have "set vs \<subseteq> set ls"
    using take unfolding np_take_def
    by (rule mapE_set) (rule np_index_in_set)
  then show ?thesis using st by auto
qed

lemma current_state_block_lengths_absent:
  assumes "i \<notin> set states"
  shows "current_state_block_lengths lengths states i = []"
proof -
  have "\<forall>p \<in> set (zip lengths states). snd p \<noteq> i"
    using assms by (auto dest: set_zip_rightD)
  then have "filter (\<lambda>(l, s). s = i) (zip lengths states) = []"
    by (auto simp: filter_empty_conv)
  then show ?thesis by (simp add: current_state_block_lengths_def)
qed

lemma dt_ar_state_absent:
  assumes "i \<notin> set states"
  shows "dt_ar_state lengths states tr scan i = Inr (0, 0)"
  using current_state_block_lengths_absent [OF assms]
  by (simp add: dt_ar_state_def)

lemma replicate_update_same: "(replicate n x)[k := x] = replicate n x"
proof (cases "k < n")
  case True
  then show ?thesis by (simp add: list_update_same_conv)
next
  case False
  then show ?thesis by (simp add: list_update_beyond)
qed

lemma divide_rows_zero_row:
  assumes "i < length m" and "m ! i = replicate n 0"
  shows "divide_rows m ! i = replicate n 0"
proof -
  have "sum_list (m ! i) = 0" using assms(2) by (simp add: sum_list_replicate)
  then show ?thesis using divide_rows_row [OF assms(1)] assms(2) by simp
qed

text \<open>
  Claim C6.  For every label sequence on which the metrics are returned and every state
  \<open>s\<close> of \<open>1..n_states\<close> that does not occur in it: the pass of the loop over states
  for \<open>s\<close> takes the branch without a division (whatever the scan length, so it cannot
  raise), the dwell time and the appearance rate of \<open>s\<close> are 0, and row \<open>s\<close> of both
  transition-probability matrices is all zero.
\<close>

theorem absent_state_metrics_zero:
  assumes run: "subject_dynamics time_labels n_states tr_duration_s total_timepoints = Inr m"
    and states: "block_states time_labels = Inr states"
    and s: "1 \<le> s" "s \<le> n_states"
    and absent: "s \<notin> set time_labels"
  shows "dt_ar_state (block_lengths time_labels total_timepoints) states tr_duration_s
            (scan_length_min total_timepoints tr_duration_s) (s - 1) = Inr (0, 0)
       \<and> dt m ! nat (s - 1) = 0
       \<and> ar m ! nat (s - 1) = 0
       \<and> tp m ! nat (s - 1) = replicate (nat n_states) 0
       \<and> tp_nopersist m ! nat (s - 1) = replicate (nat n_states) 0"
proof -
  from run obtain states' dtar c where
    K: "0 \<le> n_states" and st': "block_states time_labels = Inr states'"
    and loop: "mapE (dt_ar_state (block_lengths time_labels total_timepoints) states'
                 tr_duration_s (scan_length_min total_timepoints tr_duration_s))
                 [0..n_states - 1] = Inr dtar"
    and counts: "transition_counts time_labels n_states total_timepoints = Inr c"
    and m: "m = \<lparr> fo = fractional_occupancy time_labels n_states total_timepoints,
                  dt = map fst dtar, ar = map snd dtar,
                  tp = divide_rows c, tp_nopersist = divide_rows (fill_diagonal c 0) \<rparr>"
    by (rule subject_dynamics_Inr)
  have same: "states' = states" using st' states by simp
  have k: "nat (s - 1) < nat n_states" using s by simp
  have notin: "s - 1 \<notin> set states"
    using block_states_subset [OF states] absent by auto
  have pass: "dt_ar_state (block_lengths time_labels total_timepoints) states tr_duration_s
            (scan_length_min total_timepoints tr_duration_s) (s - 1) = Inr (0, 0)"
    by (rule dt_ar_state_absent [OF notin])
  have len: "length [0..n_states - 1] = nat n_states" using K by simp
  have nth: "[0..n_states - 1] ! nat (s - 1) = s - 1" using s by (simp add: nth_upto)
  from mapE_Inr [OF loop] have dlen': "length dtar = length [0..n_states - 1]"
    and all: "\<forall>k<length [0..n_states - 1].
                 dt_ar_state (block_lengths time_labels total_timepoints) states'
                   tr_duration_s (scan_length_min total_timepoints tr_duration_s)
                   ([0..n_states - 1] ! k) = Inr (dtar ! k)"
    by blast+
  have dlen: "length dtar = nat n_states" using dlen' len by (simp only:)
  have k': "nat (s - 1) < length [0..n_states - 1]" using k len by (simp only:)
  have dnth: "dt_ar_state (block_lengths time_labels total_timepoints) states'
                 tr_duration_s (scan_length_min total_timepoints tr_duration_s)
                 ([0..n_states - 1] ! nat (s - 1)) = Inr (dtar ! nat (s - 1))"
    by (rule all [rule_format, OF k'])
  have entry: "dtar ! nat (s - 1) = (0, 0)" using dnth nth pass same by simp
  have dt0: "dt m ! nat (s - 1) = 0" and ar0: "ar m ! nat (s - 1) = 0"
    using m entry dlen k by simp_all
  have sq: "square (nat n_states) c" by (rule transition_counts_square [OF counts])
  then have clen: "length c = nat n_states" by (simp add: square_def)
  have row: "c ! nat (s - 1) = replicate (nat n_states) 0"
    by (rule transition_counts_absent_row [OF counts absent s])
  have frow: "fill_diagonal c 0 ! nat (s - 1) = replicate (nat n_states) 0"
    using fill_diagonal_row [of "nat (s - 1)" c 0] k clen row
    by (simp add: replicate_update_same)
  have "divide_rows c ! nat (s - 1) = replicate (nat n_states) 0"
    using divide_rows_zero_row [of "nat (s - 1)" c] k clen row by simp
  moreover have "divide_rows (fill_diagonal c 0) ! nat (s - 1) = replicate (nat n_states) 0"
    using divide_rows_zero_row [of "nat (s - 1)" "fill_diagonal c 0"] k clen frow
    by (simp add: fill_diagonal_length)
  ultimately show ?thesis using pass dt0 ar0 m by simp
qed

theorem absent_state_metrics_zero_witness:
  "subject_dynamics [1, 1, 2, 4, 2] 4 2 5 =
     Inr \<lparr> fo = [Fin (2 / 5), Fin (2 / 5), Fin 0, Fin (1 / 5)], dt = [4, 2, 0, 2],
           ar = [6, 12, 0, 6],
           tp = [[1 / 2, 1 / 2, 0, 0], [0, 0, 0, 1], [0, 0, 0, 0], [0, 1, 0, 0]],
           tp_nopersist = [[0, 1, 0, 0], [0, 0, 0, 1], [0, 0, 0, 0], [0, 1, 0, 0]] \<rparr>
   \<and> block_states [1, 1, 2, 4, 2] = Inr [0, 1, 3, 1]
   \<and> (3 :: int) \<notin> set [1, 1, 2, 4, 2]
   \<and> dt_ar_state (block_lengths [1, 1, 2, 4, 2] 5) [0, 1, 3, 1] 2 (scan_length_min 5 2) 2 = Inr (0, 0)
   \<and> [4, 2, 0, 2 :: rat] ! 2 = 0 \<and> [6, 12, 0, 6 :: rat] ! 2 = 0
   \<and> [[1 / 2, 1 / 2, 0, 0], [0, 0, 0, 1], [0, 0, 0, 0], [0, 1, 0, 0 :: rat]] ! 2 = [0, 0, 0, 0]
   \<and> [[0, 1, 0, 0], [0, 0, 0, 1], [0, 0, 0, 0], [0, 1, 0, 0 :: rat]] ! 2 = [0, 0, 0, 0]"
proof -
  have run: "subject_dynamics [1, 1, 2, 4, 2] 4 2 5 =
     Inr \<lparr> fo = [Fin (2 / 5), Fin (2 / 5), Fin 0, Fin (1 / 5)], dt = [4, 2, 0, 2],
           ar = [6, 12, 0, 6],
           tp = [[1 / 2, 1 / 2, 0, 0], [0, 0, 0, 1], [0, 0, 0, 0], [0, 1, 0, 0]],
           tp_nopersist = [[0, 1, 0, 0], [0, 0, 0, 1], [0, 0, 0, 0], [0, 1, 0, 0]] \<rparr>"
    by code_simp
  have states: "block_states [1, 1, 2, 4, 2] = Inr [0, 1, 3, 1]" by code_simp
  have s: "(1 :: int) \<le> 3" "(3 :: int) \<le> 4" by simp_all
  have absent: "(3 :: int) \<notin> set [1, 1, 2, 4, 2]" by simp
  have "dt_ar_state (block_lengths [1, 1, 2, 4, 2] 5) [0, 1, 3, 1] 2 (scan_length_min 5 2) 2 = Inr (0, 0)
   \<and> [4, 2, 0, 2 :: rat] ! 2 = 0 \<and> [6, 12, 0, 6 :: rat] ! 2 = 0
   \<and> [[1 / 2, 1 / 2, 0, 0], [0, 0, 0, 1], [0, 0, 0, 0], [0, 1, 0, 0 :: rat]] ! 2 = [0, 0, 0, 0]
   \<and> [[0, 1, 0, 0], [0, 0, 0, 1], [0, 0, 0, 0], [0, 1, 0, 0 :: rat]] ! 2 = [0, 0, 0, 0]"
    using absent_state_metrics_zero [OF run states s absent]
    by (simp add: numeral_eq_Suc)
  then show ?thesis using run states absent by simp
qed

subsection \<open>Counting labels\<close>

lemma count_list_filter:
  "P i \<Longrightarrow> count_list (filter P ls) i = count_list ls i"
  by (induction ls) auto

lemma sum_counts_in_range:
  "sum_list (map (count_list ls) [1..K]) = length (filter (in_range K) ls)"
proof -
  have "sum_list (map (count_list ls) [1..K]) = sum (count_list ls) (set [1..K])"
    by (rule sum_list_distinct_conv_sum_set) simp
  also have "\<dots> = sum (count_list (filter (in_range K) ls)) (set [1..K])"
    by (rule sum.cong) (simp_all add: count_list_filter in_range_def)
  also have "\<dots> = length (filter (in_range K) ls)"
    by (rule sum_count_set) (auto simp: in_range_def)
  finally show ?thesis .
qed

lemma sum_list_of_nat_divide:
  fixes d :: rat
  shows "sum_list (map (\<lambda>i. of_nat (f i) / d) xs) = of_nat (sum_list (map f xs)) / d"
  by (induction xs) (simp_all add: add_divide_distrib)

lemma occupancy_values_sum:
  "sum_list (occupancy_values ls K T) = of_nat (length (filter (in_range K) ls)) / of_int T"
  unfolding occupancy_values_def
  by (simp add: sum_list_of_nat_divide sum_counts_in_range)

lemma fractional_occupancy_nonzero:
  "T \<noteq> 0 \<Longrightarrow> fractional_occupancy ls K T = map Fin (occupancy_values ls K T)"
  by (simp add: fractional_occupancy_def occupancy_values_def np_true_divide_def)

lemma fractional_occupancy_length_eq:
  assumes "ls \<noteq> []"
  shows "fractional_occupancy ls K (int (length ls)) = spec_fractional_occupancy ls K"
  using assms
  by (simp add: fractional_occupancy_def spec_fractional_occupancy_def np_true_divide_def)

lemma length_filter_complement:
  "length (filter P ls) = length ls - length (filter (\<lambda>x. \<not> P x) ls)"
  using sum_length_filter_compl [of P ls] by simp

lemma block_states_nonempty:
  assumes "block_states ls = Inr states"
  shows "ls \<noteq> []"
proof
  assume "ls = []"
  then have "block_states ls = Inl IndexError"
    by (simp add: block_states_def np_take_def block_starts_def change_points_def np_index_def)
  then show False using assms by simp
qed

lemma subject_dynamics_nonempty:
  assumes "subject_dynamics ls K tr T = Inr m"
  shows "ls \<noteq> []"
  using assms by (auto elim!: subject_dynamics_Inr dest: block_states_nonempty)

lemma subject_dynamics_fo:
  assumes "subject_dynamics ls K tr T = Inr m"
  shows "fo m = fractional_occupancy ls K T"
  using assms by (auto elim!: subject_dynamics_Inr)

text \<open>
  Claim C2 (as amended).  For every label sequence on which the metrics are returned, the
  occupancy of state \<open>i\<close> is the count of the timepoints labelled \<open>i\<close> divided by the
  configured \<open>total_timepoints\<close> (when that is not 0), and the values sum to the number of
  labels in \<open>[1, K]\<close> over \<open>total_timepoints\<close>.  When the length of the sequence equals
  \<open>total_timepoints\<close>, the values are the counts over the length, they sum to 1 minus the
  fraction of labels outside \<open>[1, K]\<close>, and to exactly 1 when every label is in \<open>[1, K]\<close>.
\<close>

theorem occupancy_counts_over_total_timepoints:
  assumes run: "subject_dynamics time_labels n_states tr_duration_s total_timepoints = Inr m"
  shows "(total_timepoints \<noteq> 0 \<longrightarrow>
            fo m = map Fin (occupancy_values time_labels n_states total_timepoints)
          \<and> sum_list (occupancy_values time_labels n_states total_timepoints)
              = of_nat (length (filter (in_range n_states) time_labels)) / of_int total_timepoints)
       \<and> (int (length time_labels) = total_timepoints \<longrightarrow>
            fo m = spec_fractional_occupancy time_labels n_states
          \<and> fo m = map Fin (occupancy_values time_labels n_states total_timepoints)
          \<and> sum_list (occupancy_values time_labels n_states total_timepoints)
              = 1 - of_nat (length (filter (\<lambda>l. \<not> in_range n_states l) time_labels))
                    / of_nat (length time_labels)
          \<and> (list_all (in_range n_states) time_labels \<longrightarrow>
                sum_list (occupancy_values time_labels n_states total_timepoints) = 1))"
proof (intro conjI impI)
  have fo: "fo m = fractional_occupancy time_labels n_states total_timepoints"
    by (rule subject_dynamics_fo [OF run])
  have ne: "time_labels \<noteq> []" by (rule subject_dynamics_nonempty [OF run])
  {
    assume "total_timepoints \<noteq> 0"
    then show "fo m = map Fin (occupancy_values time_labels n_states total_timepoints)"
      using fo by (simp add: fractional_occupancy_nonzero)
    show "sum_list (occupancy_values time_labels n_states total_timepoints)
              = of_nat (length (filter (in_range n_states) time_labels)) / of_int total_timepoints"
      by (rule occupancy_values_sum)
  }
  {
    assume len: "int (length time_labels) = total_timepoints"
    then have T: "total_timepoints \<noteq> 0" using ne by auto
    show "fo m = spec_fractional_occupancy time_labels n_states"
      using fo len fractional_occupancy_length_eq [OF ne] by simp
    show "fo m = map Fin (occupancy_values time_labels n_states total_timepoints)"
      using fo T by (simp add: fractional_occupancy_nonzero)
    have pos: "(of_nat (length time_labels) :: rat) \<noteq> 0" using ne by simp
    have split: "length (filter (in_range n_states) time_labels)
        = length time_labels - length (filter (\<lambda>l. \<not> in_range n_states l) time_labels)"
      by (rule length_filter_complement)
    have le: "length (filter (\<lambda>l. \<not> in_range n_states l) time_labels) \<le> length time_labels"
      by simp
    have "sum_list (occupancy_values time_labels n_states total_timepoints)
        = of_nat (length (filter (in_range n_states) time_labels)) / of_nat (length time_labels)"
      using occupancy_values_sum [of time_labels n_states total_timepoints] len by auto
    also have "\<dots> = (of_nat (length time_labels)
                       - of_nat (length (filter (\<lambda>l. \<not> in_range n_states l) time_labels)))
                     / of_nat (length time_labels)"
      using split le by (simp add: of_nat_diff)
    also have "\<dots> = 1 - of_nat (length (filter (\<lambda>l. \<not> in_range n_states l) time_labels))
                    / of_nat (length time_labels)"
      using pos by (simp add: diff_divide_distrib)
    finally show outside: "sum_list (occupancy_values time_labels n_states total_timepoints)
              = 1 - of_nat (length (filter (\<lambda>l. \<not> in_range n_states l) time_labels))
                    / of_nat (length time_labels)" .
    assume "list_all (in_range n_states) time_labels"
    then have "filter (\<lambda>l. \<not> in_range n_states l) time_labels = []"
      by (simp add: list_all_iff filter_empty_conv)
    then show "sum_list (occupancy_values time_labels n_states total_timepoints) = 1"
      using outside by simp
  }
qed

theorem occupancy_counts_over_total_timepoints_witness:
  "subject_dynamics [1, 2, 9, 2] 2 1 4 =
     Inr \<lparr> fo = [Fin (1 / 4), Fin (1 / 2)], dt = [1, 1], ar = [15, 30],
           tp = [[0, 1], [0, 0]], tp_nopersist = [[0, 1], [0, 0]] \<rparr>
   \<and> int (length [1, 2, 9, 2 :: int]) = 4
   \<and> spec_fractional_occupancy [1, 2, 9, 2] 2 = [Fin (1 / 4), Fin (1 / 2)]
   \<and> occupancy_values [1, 2, 9, 2] 2 4 = [1 / 4, 1 / 2]
   \<and> filter (\<lambda>l. \<not> in_range 2 l) [1, 2, 9, 2] = [9]
   \<and> sum_list (occupancy_values [1, 2, 9, 2] 2 4) = 1 - 1 / 4"
proof -
  have run: "subject_dynamics [1, 2, 9, 2] 2 1 4 =
     Inr \<lparr> fo = [Fin (1 / 4), Fin (1 / 2)], dt = [1, 1], ar = [15, 30],
           tp = [[0, 1], [0, 0]], tp_nopersist = [[0, 1], [0, 0]] \<rparr>"
    by code_simp
  have len: "int (length [1, 2, 9, 2 :: int]) = 4" by simp
  have out: "filter (\<lambda>l. \<not> in_range 2 l) [1, 2, 9, 2] = [9]" by (simp add: in_range_def)
  have vals: "occupancy_values [1, 2, 9, 2] 2 4 = [1 / 4, 1 / 2]" by code_simp
  have spec: "spec_fractional_occupancy [1, 2, 9, 2] 2 = [Fin (1 / 4), Fin (1 / 2)]" by code_simp
  have "sum_list (occupancy_values [1, 2, 9, 2] 2 4) = 1 - 1 / 4"
    using occupancy_counts_over_total_timepoints [OF run, THEN conjunct2, rule_format, OF len]
    by (simp only: out) simp
  then show ?thesis using run len out vals spec by simp
qed

text \<open>
  The occupancy is not the count over the length of the sequence when the sequence is
  longer than \<open>total_timepoints\<close>: two timepoints, both labelled 1, with
  \<open>total_timepoints = 1\<close>.
\<close>

theorem occupancy_over_length_counterexample:
  "map_sum id fo (subject_dynamics [1, 1] 1 1 1) = Inr [Fin 2]
   \<and> spec_fractional_occupancy [1, 1] 1 = [Fin 1]"
  by code_simp

subsection \<open>When the loop body of a subject returns\<close>

lemma change_points_bounds:
  assumes "i \<in> set (change_points ls)"
  shows "1 \<le> i \<and> i < int (length ls)"
  using assms by (auto simp: change_points_def)

lemma np_index_in_bounds:
  "0 \<le> i \<Longrightarrow> i < int (length xs) \<Longrightarrow> np_index xs i = Inr (xs ! nat i)"
  by (simp add: np_index_def Let_def)

lemma block_states_total:
  assumes "ls \<noteq> []"
  shows "\<exists>states. block_states ls = Inr states"
proof -
  have "\<exists>vs. mapE (np_index ls) (block_starts ls) = Inr vs"
  proof (rule mapE_total)
    fix i assume "i \<in> set (block_starts ls)"
    then have "0 \<le> i \<and> i < int (length ls)"
      using assms change_points_bounds [of i ls] by (auto simp: block_starts_def)
    then show "\<exists>y. np_index ls i = Inr y" using np_index_in_bounds by blast
  qed
  then show ?thesis by (auto simp: block_states_def np_take_def)
qed

lemma dt_ar_state_total:
  "scan \<noteq> 0 \<Longrightarrow> \<exists>y. dt_ar_state lengths states tr scan i = Inr y"
  by (simp add: dt_ar_state_def Let_def)




subsection \<open>A sequence shorter than the configured number of timepoints\<close>

lemma tp_step_error: "tp_step st K c t = Inl e \<Longrightarrow> e = IndexError"
  by (auto simp: tp_step_def np_index_def Let_def split: sum.splits if_splits)

lemma foldE_error_uniform:
  assumes "x \<in> set xs" and "\<And>a. f a x = Inl e" and "\<And>a y e'. f a y = Inl e' \<Longrightarrow> e' = e"
  shows "foldE f xs s = Inl e"
  using assms(1)
proof (induction xs arbitrary: s)
  case Nil
  then show ?case by simp
next
  case (Cons y ys)
  show ?case
  proof (cases "f s y")
    case (Inl e')
    then show ?thesis using assms(3) [of s y e'] by simp
  next
    case (Inr b)
    then have "x \<noteq> y" using assms(2) [of s] by auto
    then have "x \<in> set ys" using Cons.prems by simp
    then show ?thesis using Cons.IH Inr by simp
  qed
qed

lemma transition_counts_short:
  assumes ne: "ls \<noteq> []" and short: "int (length ls) < T"
  shows "transition_counts ls K T = Inl IndexError"
  unfolding transition_counts_def
proof (rule foldE_error_uniform [where x = "length ls - 1"])
  have "0 < length ls" using ne by simp
  then have "length ls - 1 < nat (T - 1)" using short by linarith
  then show "length ls - 1 \<in> set [0..<nat (T - 1)]" by simp
next
  fix a
  have "Suc (length ls - 1) = length ls" using ne by simp
  then have "np_index (map (\<lambda>l. l - 1) ls) (int (length ls - 1) + 1) = Inl IndexError"
    using np_index_Suc [of "map (\<lambda>l. l - 1) ls" "length ls - 1"] by simp
  then show "tp_step (map (\<lambda>l. l - 1) ls) K a (length ls - 1) = Inl IndexError"
    by (auto simp: tp_step_def np_index_nat split: sum.splits if_splits)
next
  fix a y e' assume "tp_step (map (\<lambda>l. l - 1) ls) K a y = Inl e'"
  then show "e' = IndexError" by (rule tp_step_error)
qed

lemma block_states_empty: "block_states [] = Inl IndexError"
  by (simp add: block_states_def np_take_def block_starts_def change_points_def np_index_def)


lemma subject_dynamics_short_IndexError:
  assumes short: "int (length ls) < T" and K: "0 \<le> K" and scan: "scan_length_min T tr \<noteq> 0"
  shows "subject_dynamics ls K tr T = Inl IndexError"
proof (cases "ls = []")
  case True
  then show ?thesis using K by (simp add: subject_dynamics_def block_states_empty)
next
  case False
  from block_states_total [OF False] obtain states where st: "block_states ls = Inr states" ..
  have "\<exists>dtar. mapE (dt_ar_state (block_lengths ls T) states tr (scan_length_min T tr))
           [0..K - 1] = Inr dtar"
    by (rule mapE_total) (rule dt_ar_state_total [OF scan])
  then obtain dtar where loop: "mapE (dt_ar_state (block_lengths ls T) states tr
           (scan_length_min T tr)) [0..K - 1] = Inr dtar" ..
  show ?thesis
    using K st loop transition_counts_short [OF False short]
    by (simp add: subject_dynamics_def)
qed

subsection \<open>Blocks\<close>



subsection \<open>What the transition loop counts\<close>







subsection \<open>The loop over subjects\<close>

lemma subjects_loop_mapE:
  "subjects_loop files K tr T subject_list
     = mapE (\<lambda>ls. subject_dynamics ls K tr T) (loaded_sequences files subject_list)"
  unfolding loaded_sequences_def
  by (induction subject_list) (auto simp: map_filter_simps split: option.splits sum.splits)


lemma calculate_Inr:
  assumes "subjects_loop files K tr T subject_list = Inr ms" and "ms \<noteq> []"
  shows "calculate_dynamics_for_group subject_list files K tr T =
     Inr \<lparr> fo_all = map (\<lambda>i. map (\<lambda>row. row ! i) (map fo ms)) [0..<length (fo (hd ms))],
           dt_all = map (\<lambda>i. map (\<lambda>row. row ! i) (map dt ms)) [0..<length (dt (hd ms))],
           ar_all = map (\<lambda>i. map (\<lambda>row. row ! i) (map ar ms)) [0..<length (ar (hd ms))],
           tp_all = map tp ms, tp_nopersist_all = map tp_nopersist ms \<rparr>"
  using assms
  by (cases ms) (simp_all add: calculate_dynamics_for_group_def stack_T_def stack_def)



subsection \<open>Which exception is raised\<close>










subsection \<open>Shapes of the metrics of one subject\<close>

lemma subject_dynamics_shapes:
  assumes run: "subject_dynamics ls K tr T = Inr m"
  shows "length (fo m) = nat K" and "length (dt m) = nat K" and "length (ar m) = nat K"
    and "square (nat K) (tp m)" and "square (nat K) (tp_nopersist m)"
proof -
  from run obtain states dtar c where
    K: "0 \<le> K"
    and loop: "mapE (dt_ar_state (block_lengths ls T) states tr (scan_length_min T tr))
                 [0..K - 1] = Inr dtar"
    and counts: "transition_counts ls K T = Inr c"
    and m: "m = \<lparr> fo = fractional_occupancy ls K T, dt = map fst dtar, ar = map snd dtar,
                  tp = divide_rows c, tp_nopersist = divide_rows (fill_diagonal c 0) \<rparr>"
    by (rule subject_dynamics_Inr)
  show "length (fo m) = nat K" using m by (simp add: fractional_occupancy_def)
  have "length dtar = length [0..K - 1]" using mapE_Inr [OF loop] by blast
  then have d: "length dtar = nat K" using K by simp
  show "length (dt m) = nat K" "length (ar m) = nat K" using m d by simp_all
  have sq: "square (nat K) c" by (rule transition_counts_square [OF counts])
  have dr: "\<And>x. square (nat K) x \<Longrightarrow> square (nat K) (divide_rows x)"
    by (simp add: square_def divide_rows_def list_all_length)
  show "square (nat K) (tp m)" using m dr [OF sq] by simp
  show "square (nat K) (tp_nopersist m)" using m dr [OF fill_diagonal_square [OF sq]] by simp
qed

lemma subjects_loop_members:
  assumes "subjects_loop files K tr T subject_list = Inr ms" and "s < length ms"
  shows "length ms = length (loaded_sequences files subject_list)
       \<and> subject_dynamics (loaded_sequences files subject_list ! s) K tr T = Inr (ms ! s)"
  using mapE_Inr [of "\<lambda>ls. subject_dynamics ls K tr T" "loaded_sequences files subject_list" ms]
    assms by (simp add: subjects_loop_mapE)

text \<open>
  Claim C5.  When the group function returns \<open>g\<close> from the metrics \<open>ms\<close> of the loaded
  subjects, the consistency step of the \<open>thr_0\<close> pass (which runs with 7 states) removes
  exactly the last state: the occupancy, dwell-time and appearance-rate arrays become the
  first \<open>K - 1\<close> rows of the stacked arrays, of shape (states, subjects); the two
  transition tensors keep shape (subjects, states, states) with the last row and the last
  column of every matrix removed; and every retained entry is the entry of the subject's
  own metrics.
\<close>

theorem remove_nota_strips_last_state:
  assumes grp: "calculate_dynamics_for_group subject_list files n_states tr_duration_s
                  total_timepoints = Inr g"
    and loop: "subjects_loop files n_states tr_duration_s total_timepoints subject_list = Inr ms"
  shows "process_group thr_0 subject_list files
           = map_sum id remove_nota
               (calculate_dynamics_for_group subject_list files 7 TR_DURATION_S TOTAL_TIMEPOINTS)
       \<and> fo_all (remove_nota g) = take (nat n_states - 1) (fo_all g)
       \<and> dt_all (remove_nota g) = take (nat n_states - 1) (dt_all g)
       \<and> ar_all (remove_nota g) = take (nat n_states - 1) (ar_all g)
       \<and> tp_all (remove_nota g)
           = map (\<lambda>p. map (take (nat n_states - 1)) (take (nat n_states - 1) p)) (tp_all g)
       \<and> tp_nopersist_all (remove_nota g)
           = map (\<lambda>p. map (take (nat n_states - 1)) (take (nat n_states - 1) p))
               (tp_nopersist_all g)
       \<and> length (fo_all (remove_nota g)) = nat n_states - 1
       \<and> length (dt_all (remove_nota g)) = nat n_states - 1
       \<and> length (ar_all (remove_nota g)) = nat n_states - 1
       \<and> length (tp_all (remove_nota g)) = length ms
       \<and> length (tp_nopersist_all (remove_nota g)) = length ms
       \<and> (\<forall>i<nat n_states - 1.
             length (fo_all (remove_nota g) ! i) = length ms
           \<and> length (dt_all (remove_nota g) ! i) = length ms
           \<and> length (ar_all (remove_nota g) ! i) = length ms
           \<and> (\<forall>s<length ms.
                 fo_all (remove_nota g) ! i ! s = fo (ms ! s) ! i
               \<and> dt_all (remove_nota g) ! i ! s = dt (ms ! s) ! i
               \<and> ar_all (remove_nota g) ! i ! s = ar (ms ! s) ! i
               \<and> length (tp_all (remove_nota g) ! s) = nat n_states - 1
               \<and> length (tp_nopersist_all (remove_nota g) ! s) = nat n_states - 1
               \<and> length (tp_all (remove_nota g) ! s ! i) = nat n_states - 1
               \<and> length (tp_nopersist_all (remove_nota g) ! s ! i) = nat n_states - 1
               \<and> (\<forall>j<nat n_states - 1.
                     tp_all (remove_nota g) ! s ! i ! j = tp (ms ! s) ! i ! j
                   \<and> tp_nopersist_all (remove_nota g) ! s ! i ! j
                       = tp_nopersist (ms ! s) ! i ! j)))"
proof -
  let ?K = "nat n_states"
  have ne: "ms \<noteq> []"
  proof
    assume "ms = []"
    then have "calculate_dynamics_for_group subject_list files n_states tr_duration_s
                  total_timepoints = Inl ValueError"
      using loop by (simp add: calculate_dynamics_for_group_def stack_T_def)
    then show False using grp by simp
  qed
  have member: "\<And>s. s < length ms \<Longrightarrow>
      \<exists>ls. subject_dynamics ls n_states tr_duration_s total_timepoints = Inr (ms ! s)"
    using subjects_loop_members [OF loop] by blast
  have shapes: "\<And>s. s < length ms \<Longrightarrow>
      length (fo (ms ! s)) = ?K \<and> length (dt (ms ! s)) = ?K \<and> length (ar (ms ! s)) = ?K
      \<and> square ?K (tp (ms ! s)) \<and> square ?K (tp_nopersist (ms ! s))"
  proof -
    fix s assume "s < length ms"
    from member [OF this] obtain ls where
      r: "subject_dynamics ls n_states tr_duration_s total_timepoints = Inr (ms ! s)" ..
    show "length (fo (ms ! s)) = ?K \<and> length (dt (ms ! s)) = ?K \<and> length (ar (ms ! s)) = ?K
      \<and> square ?K (tp (ms ! s)) \<and> square ?K (tp_nopersist (ms ! s))"
      using subject_dynamics_shapes [OF r] by simp
  qed
  have hd: "length (fo (hd ms)) = ?K" "length (dt (hd ms)) = ?K" "length (ar (hd ms)) = ?K"
    using shapes [of 0] ne by (simp_all add: hd_conv_nth)
  have g: "g = \<lparr> fo_all = map (\<lambda>i. map (\<lambda>row. row ! i) (map fo ms)) [0..<?K],
                dt_all = map (\<lambda>i. map (\<lambda>row. row ! i) (map dt ms)) [0..<?K],
                ar_all = map (\<lambda>i. map (\<lambda>row. row ! i) (map ar ms)) [0..<?K],
                tp_all = map tp ms, tp_nopersist_all = map tp_nopersist ms \<rparr>"
    using calculate_Inr [OF loop ne] grp hd by simp
  have pg: "process_group thr_0 subject_list files
           = map_sum id remove_nota
               (calculate_dynamics_for_group subject_list files 7 TR_DURATION_S TOTAL_TIMEPOINTS)"
    by (simp add: process_group_def split: sum.splits)
  have lens: "length (fo_all g) = ?K" "length (dt_all g) = ?K" "length (ar_all g) = ?K"
    "length (tp_all g) = length ms" "length (tp_nopersist_all g) = length ms"
    using g by simp_all
  have bl: "\<And>x :: 'a list. butlast x = take (length x - 1) x"
    by (simp add: butlast_conv_take)
  have tpl: "\<And>p. p \<in> set (tp_all g) \<Longrightarrow> length p = ?K \<and> (\<forall>r \<in> set (butlast p). length r = ?K)"
  proof -
    fix p assume "p \<in> set (tp_all g)"
    then obtain s where "s < length ms" "p = tp (ms ! s)"
      using g by (auto simp: in_set_conv_nth)
    then have "square ?K p" using shapes by simp
    then show "length p = ?K \<and> (\<forall>r \<in> set (butlast p). length r = ?K)"
      by (auto simp: square_def list_all_iff dest: in_set_butlastD)
  qed
  have tpnl: "\<And>p. p \<in> set (tp_nopersist_all g) \<Longrightarrow>
      length p = ?K \<and> (\<forall>r \<in> set (butlast p). length r = ?K)"
  proof -
    fix p assume "p \<in> set (tp_nopersist_all g)"
    then obtain s where "s < length ms" "p = tp_nopersist (ms ! s)"
      using g by (auto simp: in_set_conv_nth)
    then have "square ?K p" using shapes by simp
    then show "length p = ?K \<and> (\<forall>r \<in> set (butlast p). length r = ?K)"
      by (auto simp: square_def list_all_iff dest: in_set_butlastD)
  qed
  have c1: "fo_all (remove_nota g) = take (?K - 1) (fo_all g)"
    "dt_all (remove_nota g) = take (?K - 1) (dt_all g)"
    "ar_all (remove_nota g) = take (?K - 1) (ar_all g)"
    using lens by (simp_all add: remove_nota_def drop_last_row_def butlast_conv_take)
  have c2: "tp_all (remove_nota g)
           = map (\<lambda>p. map (take (?K - 1)) (take (?K - 1) p)) (tp_all g)"
    unfolding remove_nota_def drop_last_row_col_def
    using tpl by (auto simp: butlast_conv_take)
  have c3: "tp_nopersist_all (remove_nota g)
           = map (\<lambda>p. map (take (?K - 1)) (take (?K - 1) p)) (tp_nopersist_all g)"
    unfolding remove_nota_def drop_last_row_col_def
    using tpnl by (auto simp: butlast_conv_take)
  have c4: "length (fo_all (remove_nota g)) = ?K - 1" "length (dt_all (remove_nota g)) = ?K - 1"
    "length (ar_all (remove_nota g)) = ?K - 1" "length (tp_all (remove_nota g)) = length ms"
    "length (tp_nopersist_all (remove_nota g)) = length ms"
    using c1 c2 c3 lens by simp_all
  have c5: "\<forall>i<?K - 1.
             length (fo_all (remove_nota g) ! i) = length ms
           \<and> length (dt_all (remove_nota g) ! i) = length ms
           \<and> length (ar_all (remove_nota g) ! i) = length ms
           \<and> (\<forall>s<length ms.
                 fo_all (remove_nota g) ! i ! s = fo (ms ! s) ! i
               \<and> dt_all (remove_nota g) ! i ! s = dt (ms ! s) ! i
               \<and> ar_all (remove_nota g) ! i ! s = ar (ms ! s) ! i
               \<and> length (tp_all (remove_nota g) ! s) = ?K - 1
               \<and> length (tp_nopersist_all (remove_nota g) ! s) = ?K - 1
               \<and> length (tp_all (remove_nota g) ! s ! i) = ?K - 1
               \<and> length (tp_nopersist_all (remove_nota g) ! s ! i) = ?K - 1
               \<and> (\<forall>j<?K - 1.
                     tp_all (remove_nota g) ! s ! i ! j = tp (ms ! s) ! i ! j
                   \<and> tp_nopersist_all (remove_nota g) ! s ! i ! j
                       = tp_nopersist (ms ! s) ! i ! j))"
  proof (intro allI impI)
    fix i assume i: "i < ?K - 1"
    then have iK: "i < ?K" by simp
    have rows: "fo_all (remove_nota g) ! i = map (\<lambda>row. row ! i) (map fo ms)"
      "dt_all (remove_nota g) ! i = map (\<lambda>row. row ! i) (map dt ms)"
      "ar_all (remove_nota g) ! i = map (\<lambda>row. row ! i) (map ar ms)"
      using c1 g i iK by simp_all
    show "length (fo_all (remove_nota g) ! i) = length ms
           \<and> length (dt_all (remove_nota g) ! i) = length ms
           \<and> length (ar_all (remove_nota g) ! i) = length ms
           \<and> (\<forall>s<length ms.
                 fo_all (remove_nota g) ! i ! s = fo (ms ! s) ! i
               \<and> dt_all (remove_nota g) ! i ! s = dt (ms ! s) ! i
               \<and> ar_all (remove_nota g) ! i ! s = ar (ms ! s) ! i
               \<and> length (tp_all (remove_nota g) ! s) = ?K - 1
               \<and> length (tp_nopersist_all (remove_nota g) ! s) = ?K - 1
               \<and> length (tp_all (remove_nota g) ! s ! i) = ?K - 1
               \<and> length (tp_nopersist_all (remove_nota g) ! s ! i) = ?K - 1
               \<and> (\<forall>j<?K - 1.
                     tp_all (remove_nota g) ! s ! i ! j = tp (ms ! s) ! i ! j
                   \<and> tp_nopersist_all (remove_nota g) ! s ! i ! j
                       = tp_nopersist (ms ! s) ! i ! j))"
    proof (intro conjI allI impI)
      show "length (fo_all (remove_nota g) ! i) = length ms" using rows by simp
      show "length (dt_all (remove_nota g) ! i) = length ms" using rows by simp
      show "length (ar_all (remove_nota g) ! i) = length ms" using rows by simp
    next
      fix s assume s: "s < length ms"
      show "fo_all (remove_nota g) ! i ! s = fo (ms ! s) ! i" using rows s by simp
      show "dt_all (remove_nota g) ! i ! s = dt (ms ! s) ! i" using rows s by simp
      show "ar_all (remove_nota g) ! i ! s = ar (ms ! s) ! i" using rows s by simp
      have sq: "square ?K (tp (ms ! s))" "square ?K (tp_nopersist (ms ! s))"
        using shapes [OF s] by simp_all
      have l: "length (tp (ms ! s)) = ?K" "length (tp_nopersist (ms ! s)) = ?K"
        using sq by (simp_all add: square_def)
      have r: "length (tp (ms ! s) ! i) = ?K" "length (tp_nopersist (ms ! s) ! i) = ?K"
        using square_row [OF sq(1) iK] square_row [OF sq(2) iK] by simp_all
      have t: "tp_all (remove_nota g) ! s = map (take (?K - 1)) (take (?K - 1) (tp (ms ! s)))"
        "tp_nopersist_all (remove_nota g) ! s
           = map (take (?K - 1)) (take (?K - 1) (tp_nopersist (ms ! s)))"
        using c2 c3 g s by simp_all
      show "length (tp_all (remove_nota g) ! s) = ?K - 1" using t l by simp
      show "length (tp_nopersist_all (remove_nota g) ! s) = ?K - 1" using t l by simp
      have ti: "tp_all (remove_nota g) ! s ! i = take (?K - 1) (tp (ms ! s) ! i)"
        "tp_nopersist_all (remove_nota g) ! s ! i = take (?K - 1) (tp_nopersist (ms ! s) ! i)"
        using t l i by simp_all
      show "length (tp_all (remove_nota g) ! s ! i) = ?K - 1" using ti r by simp
      show "length (tp_nopersist_all (remove_nota g) ! s ! i) = ?K - 1" using ti r by simp
      fix j assume j: "j < ?K - 1"
      show "tp_all (remove_nota g) ! s ! i ! j = tp (ms ! s) ! i ! j" using ti j by simp
      show "tp_nopersist_all (remove_nota g) ! s ! i ! j = tp_nopersist (ms ! s) ! i ! j"
        using ti j by simp
    qed
  qed
  show ?thesis using pg c1 c2 c3 c4 c5 by (simp only: simp_thms)
qed

theorem remove_nota_strips_last_state_witness:
  "calculate_dynamics_for_group [4, 5, 6]
      (\<lambda>s. if s = 4 then Some [1, 2, 2] else if s = 6 then Some [2, 1, 3] else None) 3 1 3
     = Inr \<lparr> fo_all = [[Fin (1 / 3), Fin (1 / 3)], [Fin (2 / 3), Fin (1 / 3)], [Fin 0, Fin (1 / 3)]],
             dt_all = [[1, 1], [2, 1], [0, 1]],
             ar_all = [[20, 20], [20, 20], [0, 20]],
             tp_all = [[[0, 1, 0], [0, 1, 0], [0, 0, 0]], [[0, 0, 1], [1, 0, 0], [0, 0, 0]]],
             tp_nopersist_all = [[[0, 1, 0], [0, 0, 0], [0, 0, 0]], [[0, 0, 1], [1, 0, 0], [0, 0, 0]]] \<rparr>
   \<and> subjects_loop
      (\<lambda>s. if s = 4 then Some [1, 2, 2] else if s = 6 then Some [2, 1, 3] else None) 3 1 3 [4, 5, 6]
     = Inr [\<lparr> fo = [Fin (1 / 3), Fin (2 / 3), Fin 0], dt = [1, 2, 0], ar = [20, 20, 0],
              tp = [[0, 1, 0], [0, 1, 0], [0, 0, 0]],
              tp_nopersist = [[0, 1, 0], [0, 0, 0], [0, 0, 0]] \<rparr>,
            \<lparr> fo = [Fin (1 / 3), Fin (1 / 3), Fin (1 / 3)], dt = [1, 1, 1], ar = [20, 20, 20],
              tp = [[0, 0, 1], [1, 0, 0], [0, 0, 0]],
              tp_nopersist = [[0, 0, 1], [1, 0, 0], [0, 0, 0]] \<rparr>]
   \<and> remove_nota
        \<lparr> fo_all = [[Fin (1 / 3), Fin (1 / 3)], [Fin (2 / 3), Fin (1 / 3)], [Fin 0, Fin (1 / 3)]],
          dt_all = [[1, 1], [2, 1], [0, 1]],
          ar_all = [[20, 20], [20, 20], [0, 20]],
          tp_all = [[[0, 1, 0], [0, 1, 0], [0, 0, 0]], [[0, 0, 1], [1, 0, 0], [0, 0, 0]]],
          tp_nopersist_all = [[[0, 1, 0], [0, 0, 0], [0, 0, 0]], [[0, 0, 1], [1, 0, 0], [0, 0, 0]]] \<rparr>
     = \<lparr> fo_all = [[Fin (1 / 3), Fin (1 / 3)], [Fin (2 / 3), Fin (1 / 3)]],
         dt_all = [[1, 1], [2, 1]], ar_all = [[20, 20], [20, 20]],
         tp_all = [[[0, 1], [0, 1]], [[0, 0], [1, 0]]],
         tp_nopersist_all = [[[0, 1], [0, 0]], [[0, 0], [1, 0]]] \<rparr>"
proof -
  let ?files = "\<lambda>s :: int. if s = 4 then Some [1, 2, 2 :: int]
                          else if s = 6 then Some [2, 1, 3] else None"
  let ?g = "\<lparr> fo_all = [[Fin (1 / 3), Fin (1 / 3)], [Fin (2 / 3), Fin (1 / 3)], [Fin 0, Fin (1 / 3)]],
          dt_all = [[1, 1], [2, 1], [0, 1 :: rat]],
          ar_all = [[20, 20], [20, 20], [0, 20 :: rat]],
          tp_all = [[[0, 1, 0], [0, 1, 0], [0, 0, 0]], [[0, 0, 1], [1, 0, 0], [0, 0, 0 :: rat]]],
          tp_nopersist_all = [[[0, 1, 0], [0, 0, 0], [0, 0, 0]], [[0, 0, 1], [1, 0, 0], [0, 0, 0 :: rat]]] \<rparr>"
  have grp: "calculate_dynamics_for_group [4, 5, 6] ?files 3 1 3 = Inr ?g"
    by code_simp
  have loop: "subjects_loop ?files 3 1 3 [4, 5, 6]
     = Inr [\<lparr> fo = [Fin (1 / 3), Fin (2 / 3), Fin 0], dt = [1, 2, 0], ar = [20, 20, 0],
              tp = [[0, 1, 0], [0, 1, 0], [0, 0, 0]],
              tp_nopersist = [[0, 1, 0], [0, 0, 0], [0, 0, 0]] \<rparr>,
            \<lparr> fo = [Fin (1 / 3), Fin (1 / 3), Fin (1 / 3)], dt = [1, 1, 1], ar = [20, 20, 20],
              tp = [[0, 0, 1], [1, 0, 0], [0, 0, 0]],
              tp_nopersist = [[0, 0, 1], [1, 0, 0], [0, 0, 0]] \<rparr>]"
    by code_simp
  note inst = remove_nota_strips_last_state [OF grp loop]
  have f: "fo_all (remove_nota ?g) = [[Fin (1 / 3), Fin (1 / 3)], [Fin (2 / 3), Fin (1 / 3)]]"
    and d: "dt_all (remove_nota ?g) = [[1, 1], [2, 1]]"
    and a: "ar_all (remove_nota ?g) = [[20, 20], [20, 20]]"
    and p: "tp_all (remove_nota ?g) = [[[0, 1], [0, 1]], [[0, 0], [1, 0]]]"
    and q: "tp_nopersist_all (remove_nota ?g) = [[[0, 1], [0, 0]], [[0, 0], [1, 0]]]"
    using inst by (simp_all add: numeral_eq_Suc)
  have "remove_nota ?g = \<lparr> fo_all = fo_all (remove_nota ?g), dt_all = dt_all (remove_nota ?g),
      ar_all = ar_all (remove_nota ?g), tp_all = tp_all (remove_nota ?g),
      tp_nopersist_all = tp_nopersist_all (remove_nota ?g) \<rparr>"
    by simp
  then have "remove_nota ?g = \<lparr> fo_all = [[Fin (1 / 3), Fin (1 / 3)], [Fin (2 / 3), Fin (1 / 3)]],
         dt_all = [[1, 1], [2, 1]], ar_all = [[20, 20], [20, 20]],
         tp_all = [[[0, 1], [0, 1]], [[0, 0], [1, 0]]],
         tp_nopersist_all = [[[0, 1], [0, 0]], [[0, 0], [1, 0]]] \<rparr>"
    by (simp only: f d a p q)
  then show ?thesis using grp loop by (simp only: simp_thms)
qed

section \<open>Verification: the dominant-state classifier\<close>

subsection \<open>Comparisons of floats\<close>

lemma fle_refl: "\<not> isnan a \<Longrightarrow> fle a a"
  by (cases a) simp_all

lemma fle_trans: "fle a b \<Longrightarrow> fle b c \<Longrightarrow> fle a c"
  by (cases a; cases b; cases c) simp_all

lemma fle_total: "\<not> isnan a \<Longrightarrow> \<not> isnan b \<Longrightarrow> fle a b \<or> fle b a"
  by (cases a; cases b) auto

lemma fle_nan_left: "isnan a \<Longrightarrow> \<not> fle a b"
  by (cases a) simp_all

lemma fle_nan_right: "isnan b \<Longrightarrow> \<not> fle a b"
  by (cases b; cases a) simp_all

subsection \<open>The position that argmax returns\<close>

lemma argmax_from_bound:
  "best < i \<Longrightarrow> argmax_from mp best i ys < i + length ys"
proof (induction ys arbitrary: mp best i)
  case Nil
  then show ?case by simp
next
  case (Cons y ys)
  have a: "argmax_from y i (Suc i) ys < Suc i + length ys" by (rule Cons.IH) simp
  have b: "argmax_from mp best (Suc i) ys < Suc i + length ys"
    by (rule Cons.IH) (use Cons.prems in simp)
  show ?case using a b Cons.prems by simp
qed

lemma argmax_from_nan:
  assumes "length ps = i" and "best < i" and "ps ! best = mp"
    and "isnan mp \<or> (\<exists>z \<in> set ys. isnan z)"
  shows "isnan ((ps @ ys) ! argmax_from mp best i ys)"
  using assms
proof (induction ys arbitrary: ps mp best i)
  case Nil
  then show ?case by (simp add: nth_append)
next
  case (Cons y ys)
  show ?case
  proof (cases "isnan mp")
    case True
    then show ?thesis using Cons.prems by (simp add: nth_append)
  next
    case False
    show ?thesis
    proof (cases "fle y mp")
      case True
      then have "\<not> isnan y" using fle_nan_left by blast
      then have ex: "\<exists>z \<in> set ys. isnan z" using Cons.prems(4) False by auto
      have "isnan (((ps @ [y]) @ ys) ! argmax_from mp best (Suc i) ys)"
        by (rule Cons.IH) (use Cons.prems ex in \<open>simp_all add: nth_append\<close>)
      then show ?thesis using False True by simp
    next
      case nle: False
      have "isnan y \<or> (\<exists>z \<in> set ys. isnan z)" using Cons.prems(4) False by auto
      then have "isnan (((ps @ [y]) @ ys) ! argmax_from y i (Suc i) ys)"
        by (intro Cons.IH) (use Cons.prems in \<open>simp_all add: nth_append\<close>)
      then show ?thesis using False nle by simp
    qed
  qed
qed

lemma argmax_from_max:
  assumes "length ps = i" and "best < i" and "ps ! best = mp"
    and "\<forall>z \<in> set (ps @ ys). \<not> isnan z"
    and "\<forall>j<i. fle (ps ! j) mp" and "\<forall>j<best. \<not> fle mp (ps ! j)"
  shows "(\<forall>j<i + length ys. fle ((ps @ ys) ! j) ((ps @ ys) ! argmax_from mp best i ys))
       \<and> (\<forall>j<argmax_from mp best i ys.
             \<not> fle ((ps @ ys) ! argmax_from mp best i ys) ((ps @ ys) ! j))"
  using assms
proof (induction ys arbitrary: ps mp best i)
  case Nil
  then show ?case by simp
next
  case (Cons y ys)
  have mp: "\<not> isnan mp" using Cons.prems(2,3,4) Cons.prems(1)
    by (metis UnCI nth_mem set_append)
  have y: "\<not> isnan y" using Cons.prems(4) by simp
  have nonan: "\<forall>z \<in> set ((ps @ [y]) @ ys). \<not> isnan z" using Cons.prems(4) by simp
  have len: "length (ps @ [y]) = Suc i" using Cons.prems(1) by simp
  show ?case
  proof (cases "fle y mp")
    case True
    have "(\<forall>j<Suc i + length ys.
              fle (((ps @ [y]) @ ys) ! j) (((ps @ [y]) @ ys) ! argmax_from mp best (Suc i) ys))
       \<and> (\<forall>j<argmax_from mp best (Suc i) ys.
             \<not> fle (((ps @ [y]) @ ys) ! argmax_from mp best (Suc i) ys) (((ps @ [y]) @ ys) ! j))"
    proof (rule Cons.IH [OF len _ _ nonan])
      show "best < Suc i" using Cons.prems(2) by simp
      show "(ps @ [y]) ! best = mp" using Cons.prems(1,2,3) by (simp add: nth_append)
      show "\<forall>j<Suc i. fle ((ps @ [y]) ! j) mp"
        using Cons.prems(1,5) True by (auto simp: nth_append less_Suc_eq)
      show "\<forall>j<best. \<not> fle mp ((ps @ [y]) ! j)"
        using Cons.prems(1,2,6) by (auto simp: nth_append)
    qed
    then show ?thesis using True mp by simp
  next
    case False
    then have lt: "fle mp y" using fle_total [OF y mp] by blast
    have "(\<forall>j<Suc i + length ys.
              fle (((ps @ [y]) @ ys) ! j) (((ps @ [y]) @ ys) ! argmax_from y i (Suc i) ys))
       \<and> (\<forall>j<argmax_from y i (Suc i) ys.
             \<not> fle (((ps @ [y]) @ ys) ! argmax_from y i (Suc i) ys) (((ps @ [y]) @ ys) ! j))"
    proof (rule Cons.IH [OF len _ _ nonan])
      show "i < Suc i" by simp
      show "(ps @ [y]) ! i = y" using Cons.prems(1) by (simp add: nth_append)
      show "\<forall>j<Suc i. fle ((ps @ [y]) ! j) y"
      proof (intro allI impI)
        fix j assume "j < Suc i"
        then consider "j < i" | "j = i" by linarith
        then show "fle ((ps @ [y]) ! j) y"
        proof cases
          case 1
          then have "fle (ps ! j) mp" using Cons.prems(5) by simp
          then have "fle (ps ! j) y" using lt fle_trans by blast
          then show ?thesis using 1 Cons.prems(1) by (simp add: nth_append)
        next
          case 2
          then show ?thesis using Cons.prems(1) fle_refl [OF y] by (simp add: nth_append)
        qed
      qed
      show "\<forall>j<i. \<not> fle y ((ps @ [y]) ! j)"
      proof (intro allI impI)
        fix j assume j: "j < i"
        show "\<not> fle y ((ps @ [y]) ! j)"
        proof
          assume "fle y ((ps @ [y]) ! j)"
          then have "fle y (ps ! j)" using j Cons.prems(1) by (simp add: nth_append)
          moreover have "fle (ps ! j) mp" using Cons.prems(5) j by simp
          ultimately have "fle y mp" using fle_trans by blast
          then show False using False by simp
        qed
      qed
    qed
    then show ?thesis using False mp by simp
  qed
qed

text \<open>
  The position returned for a non-empty array: a NaN when the array holds one, the first
  position of the maximum otherwise.
\<close>

lemma np_argmax_spec:
  assumes "xs \<noteq> []"
  obtains k where "np_argmax xs = Inr k" and "k < length xs"
    and "(\<exists>z \<in> set xs. isnan z) \<Longrightarrow> isnan (xs ! k)"
    and "(\<forall>z \<in> set xs. \<not> isnan z) \<Longrightarrow>
           (\<forall>j<length xs. fle (xs ! j) (xs ! k)) \<and> (\<forall>j<k. \<not> fle (xs ! k) (xs ! j))"
proof -
  from assms obtain x rest where xs: "xs = x # rest" by (cases xs) auto
  let ?k = "argmax_from x 0 1 rest"
  have k: "np_argmax xs = Inr ?k" using xs by (simp add: np_argmax_def)
  have bound: "?k < length xs" using argmax_from_bound [of 0 1 x rest] xs by simp
  have nan: "(\<exists>z \<in> set xs. isnan z) \<Longrightarrow> isnan (xs ! ?k)"
  proof -
    assume "\<exists>z \<in> set xs. isnan z"
    then have "isnan x \<or> (\<exists>z \<in> set rest. isnan z)" using xs by auto
    then have "isnan (([x] @ rest) ! ?k)"
      by (intro argmax_from_nan) simp_all
    then show ?thesis using xs by simp
  qed
  have mx: "(\<forall>z \<in> set xs. \<not> isnan z) \<Longrightarrow>
           (\<forall>j<length xs. fle (xs ! j) (xs ! ?k)) \<and> (\<forall>j<?k. \<not> fle (xs ! ?k) (xs ! j))"
  proof -
    assume nonan: "\<forall>z \<in> set xs. \<not> isnan z"
    then have x: "\<not> isnan x" using xs by simp
    have "(\<forall>j<1 + length rest. fle (([x] @ rest) ! j) (([x] @ rest) ! ?k))
       \<and> (\<forall>j<?k. \<not> fle (([x] @ rest) ! ?k) (([x] @ rest) ! j))"
      by (rule argmax_from_max) (use nonan xs fle_refl [OF x] in simp_all)
    then show ?thesis using xs by simp
  qed
  show thesis using that [OF k bound nan mx] by blast
qed

lemma find_None_nth: "(\<forall>t<length xs. \<not> P (xs ! t)) \<Longrightarrow> find P xs = None"
  by (auto simp: find_None_iff in_set_conv_nth)

lemma bex_set_nth: "\<exists>z \<in> set xs. P z \<Longrightarrow> \<exists>a<length xs. P (xs ! a)"
  by (auto simp: in_set_conv_nth)

lemma dominant_nth:
  assumes "t < length [1..nlabels - 1]"
  shows "dominant df nlabels thr ([1..nlabels - 1] ! t) \<longleftrightarrow>
     (\<forall>j<length (map (net_mean df) [1..nlabels - 1]).
         fle (map (net_mean df) [1..nlabels - 1] ! j) (map (net_mean df) [1..nlabels - 1] ! t))
     \<and> fge (map (net_mean df) [1..nlabels - 1] ! t) thr"
  using assms by (simp add: dominant_def list_all_length)

subsection \<open>The mean of a network\<close>

lemma foldl_fadd_Fin: "foldl fadd (Fin a) (map Fin qs) = Fin (a + sum_list qs)"
  by (induction qs arbitrary: a) (simp_all add: add.assoc)

lemma fsum_Fin: "fsum (map Fin qs) = Fin (sum_list qs)"
  by (simp add: fsum_def foldl_fadd_Fin)

lemma filter_not_nan:
  "no_infinity vs \<Longrightarrow> filter (\<lambda>v. \<not> isnan v) vs = map Fin (finite_values vs)"
proof (induction vs)
  case Nil
  then show ?case by simp
next
  case (Cons v vs)
  then show ?case by (cases v) (simp_all add: no_infinity_def)
qed

lemma series_mean_arithmetic:
  assumes "no_infinity vs"
  shows "series_mean vs
           = (if finite_values vs = [] then NaN else Fin (arithmetic_mean (finite_values vs)))"
  using filter_not_nan [OF assms]
  by (simp add: series_mean_def Let_def fsum_Fin arithmetic_mean_def)

lemma net_mean_arithmetic:
  assumes "no_infinity (network_values df i)"
  shows "net_mean df i
           = (if finite_values (network_values df i) = [] then NaN
              else Fin (arithmetic_mean (finite_values (network_values df i))))"
  using series_mean_arithmetic [OF assms] by (simp add: net_mean_def network_values_def)

subsection \<open>The label of a timepoint\<close>

lemma tr_net_labels_find:
  assumes n: "2 \<le> nlabels"
  shows "tr_net_labels df nlabels thr
           = Inr (case find (dominant df nlabels thr) [1..nlabels - 1] of
                    Some i \<Rightarrow> i | None \<Rightarrow> nlabels)
       \<and> (list_ex (\<lambda>i. isnan (net_mean df i)) [1..nlabels - 1] \<longrightarrow>
            tr_net_labels df nlabels thr = Inr nlabels)"
proof -
  let ?ids = "[1..nlabels - 1]"
  let ?ms = "map (net_mean df) ?ids"
  let ?D = "dominant df nlabels thr"
  have ne: "?ms \<noteq> []" using n by simp
  from np_argmax_spec [OF ne] obtain k where
    k: "np_argmax ?ms = Inr k" and bound: "k < length ?ms"
    and nan: "(\<exists>z \<in> set ?ms. isnan z) \<Longrightarrow> isnan (?ms ! k)"
    and mx: "(\<forall>z \<in> set ?ms. \<not> isnan z) \<Longrightarrow>
           (\<forall>j<length ?ms. fle (?ms ! j) (?ms ! k)) \<and> (\<forall>j<k. \<not> fle (?ms ! k) (?ms ! j))"
    by blast
  have kb: "k < length ?ids" using bound by simp
  have res: "tr_net_labels df nlabels thr
      = (if fge (?ms ! k) thr then Inr (int k + 1) else Inr nlabels)"
    using k by (simp add: tr_net_labels_def Let_def)
  have idk: "?ids ! k = int k + 1" using kb by (simp add: nth_upto)
  have D: "\<And>t. t < length ?ids \<Longrightarrow>
      ?D (?ids ! t) \<longleftrightarrow> (\<forall>j<length ?ms. fle (?ms ! j) (?ms ! t)) \<and> fge (?ms ! t) thr"
    by (rule dominant_nth)
  have none: "(\<forall>t<length ?ids. \<not> ?D (?ids ! t)) \<Longrightarrow> find ?D ?ids = None"
    by (rule find_None_nth)
  show ?thesis
  proof (cases "\<exists>z \<in> set ?ms. isnan z")
    case True
    from bex_set_nth [OF this] obtain a where a: "a < length ?ms" "isnan (?ms ! a)"
      by blast
    have "isnan (?ms ! k)" by (rule nan [OF True])
    then have "\<not> fge (?ms ! k) thr" using fle_nan_right by (simp add: fge_def)
    then have r: "tr_net_labels df nlabels thr = Inr nlabels" using res by simp
    have "\<forall>t<length ?ids. \<not> ?D (?ids ! t)"
    proof (intro allI impI)
      fix t assume t: "t < length ?ids"
      have "\<not> fle (?ms ! a) (?ms ! t)" using a(2) fle_nan_left by blast
      then show "\<not> ?D (?ids ! t)" using D [OF t] a(1) by blast
    qed
    then have "find ?D ?ids = None" by (rule none)
    then show ?thesis using r by simp
  next
    case False
    then have nonan: "\<forall>z \<in> set ?ms. \<not> isnan z" by blast
    have noex: "\<not> list_ex (\<lambda>i. isnan (net_mean df i)) ?ids"
      using nonan by (auto simp: list_ex_iff)
    from mx [OF nonan] have ge: "\<forall>j<length ?ms. fle (?ms ! j) (?ms ! k)"
      and first: "\<forall>j<k. \<not> fle (?ms ! k) (?ms ! j)" by blast+
    show ?thesis
    proof (cases "fge (?ms ! k) thr")
      case True
      have Dk: "?D (?ids ! k)" using D [OF kb] ge True by blast
      have before: "\<forall>j<k. \<not> ?D (?ids ! j)"
      proof (intro allI impI)
        fix j assume j: "j < k"
        then have jb: "j < length ?ids" using kb by simp
        have "\<not> fle (?ms ! k) (?ms ! j)" using first j by blast
        then show "\<not> ?D (?ids ! j)" using D [OF jb] bound by blast
      qed
      have "find ?D ?ids = Some (?ids ! k)"
        unfolding find_Some_iff using kb Dk before by blast
      then show ?thesis using res True idk noex by simp
    next
      case nge: False
      have "\<forall>t<length ?ids. \<not> ?D (?ids ! t)"
      proof (intro allI impI)
        fix t assume t: "t < length ?ids"
        show "\<not> ?D (?ids ! t)"
        proof
          assume "?D (?ids ! t)"
          then have "fle thr (?ms ! t)" using D [OF t] by (simp add: fge_def)
          moreover have "fle (?ms ! t) (?ms ! k)" using ge t by simp
          ultimately have "fle thr (?ms ! k)" by (rule fle_trans)
          then show False using nge by (simp add: fge_def)
        qed
      qed
      then have "find ?D ?ids = None" by (rule none)
      then show ?thesis using res nge noex by simp
    qed
  qed
qed

lemma dominant_finite:
  assumes means: "\<forall>j \<in> set [1..nlabels - 1]. net_mean df j = Fin (mu j)"
    and i: "i \<in> set [1..nlabels - 1]"
  shows "dominant df nlabels (Fin tau) i
           \<longleftrightarrow> list_all (\<lambda>j. mu j \<le> mu i) [1..nlabels - 1] \<and> tau \<le> mu i"
proof -
  have mi: "net_mean df i = Fin (mu i)" using means i by blast
  have "list_all (\<lambda>j. fle (net_mean df j) (net_mean df i)) [1..nlabels - 1]
          \<longleftrightarrow> list_all (\<lambda>j. mu j \<le> mu i) [1..nlabels - 1]"
    unfolding list_all_iff using means mi by auto
  then show ?thesis using mi by (simp add: dominant_def fge_def)
qed

lemma tr_net_labels_finite:
  assumes n: "2 \<le> nlabels"
    and means: "\<forall>j \<in> set [1..nlabels - 1]. net_mean df j = Fin (mu j)"
  shows "tr_net_labels df nlabels (Fin tau) = Inr (spec_label mu nlabels tau)"
proof -
  have "find (dominant df nlabels (Fin tau)) [1..nlabels - 1]
      = find (\<lambda>i. list_all (\<lambda>j. mu j \<le> mu i) [1..nlabels - 1] \<and> tau \<le> mu i)
          [1..nlabels - 1]"
    by (rule find_cong [OF refl]) (rule dominant_finite [OF means])
  then show ?thesis
    using tr_net_labels_find [OF n, of df "Fin tau"] by (simp add: spec_label_def)
qed

text \<open>
  Claim C1.  For every dataframe of one timepoint, every number of labels
  \<open>nlabels \<ge> 2\<close> and every threshold: the mean of a network that \<open>tr_net_labels\<close>
  compares is the arithmetic mean (sum over count) of the values of the rows of the network
  that are numbers (NaN when there is none; stated for networks without an infinite
  value); when the means of the networks \<open>1..nlabels-1\<close> are the numbers \<open>mu\<close> and the
  threshold is the number \<open>tau\<close>, the result is the first network, in label order, whose
  mean is the maximum of the means and at least \<open>tau\<close>, and \<open>nlabels\<close> when the maximum
  is below \<open>tau\<close>; in general the result is the first network whose mean compares, as
  floats, at least the mean of every network and the threshold, else \<open>nlabels\<close>, so that
  when the mean of some network is NaN the result is \<open>nlabels\<close>.
\<close>

theorem tr_net_labels_first_dominant:
  assumes n: "2 \<le> nlabels"
  shows "(\<forall>i. no_infinity (network_values df i) \<longrightarrow>
            net_mean df i
              = (if finite_values (network_values df i) = [] then NaN
                 else Fin (arithmetic_mean (finite_values (network_values df i)))))
       \<and> ((\<forall>j \<in> set [1..nlabels - 1]. net_mean df j = Fin (mu j)) \<longrightarrow>
            tr_net_labels df nlabels (Fin tau) = Inr (spec_label mu nlabels tau))
       \<and> tr_net_labels df nlabels thr
           = Inr (case find (dominant df nlabels thr) [1..nlabels - 1] of
                    Some i \<Rightarrow> i | None \<Rightarrow> nlabels)
       \<and> (list_ex (\<lambda>i. isnan (net_mean df i)) [1..nlabels - 1] \<longrightarrow>
            tr_net_labels df nlabels thr = Inr nlabels)"
  using tr_net_labels_find [OF n, of df thr] net_mean_arithmetic [of df]
    tr_net_labels_finite [OF n, of df mu tau]
  by blast

theorem tr_net_labels_first_dominant_witness:
  "(2 :: int) \<le> 3
   \<and> no_infinity (network_values [(Fin 2, Some 1), (Fin 2, Some 1), (Fin 3, Some 2)] 1)
   \<and> no_infinity (network_values [(Fin 2, Some 1), (Fin 2, Some 1), (Fin 3, Some 2)] 2)
   \<and> finite_values (network_values [(Fin 2, Some 1), (Fin 2, Some 1), (Fin 3, Some 2)] 1) = [2, 2]
   \<and> finite_values (network_values [(Fin 2, Some 1), (Fin 2, Some 1), (Fin 3, Some 2)] 2) = [3]
   \<and> net_mean [(Fin 2, Some 1), (Fin 2, Some 1), (Fin 3, Some 2)] 1 = Fin 2
   \<and> net_mean [(Fin 2, Some 1), (Fin 2, Some 1), (Fin 3, Some 2)] 2 = Fin 3
   \<and> spec_label (\<lambda>j. if j = 1 then 2 else 3) 3 0 = 2
   \<and> tr_net_labels [(Fin 2, Some 1), (Fin 2, Some 1), (Fin 3, Some 2)] 3 (Fin 0) = Inr 2
   \<and> find (dominant [(Fin 1, Some 1), (Fin 2, Some 2), (Fin 3, Some 1)] 3 (Fin 0)) [1..3 - 1]
       = Some 1
   \<and> tr_net_labels [(Fin 1, Some 1), (Fin 2, Some 2), (Fin 3, Some 1)] 3 (Fin 0) = Inr 1
   \<and> find (dominant [(Fin (- 2), Some 1), (Fin (- 1), Some 2)] 3 (Fin 0)) [1..3 - 1] = None
   \<and> tr_net_labels [(Fin (- 2), Some 1), (Fin (- 1), Some 2)] 3 (Fin 0) = Inr 3
   \<and> list_ex (\<lambda>i. isnan (net_mean [(Fin 5, Some 1), (NaN, Some 2)] i)) [1..3 - 1]
   \<and> tr_net_labels [(Fin 5, Some 1), (NaN, Some 2)] 3 (Fin 0) = Inr 3"
proof -
  let ?d = "[(Fin 2, Some 1), (Fin 2, Some 1), (Fin 3, Some 2)] :: df_row list"
  let ?t = "[(Fin 1, Some 1), (Fin 2, Some 2), (Fin 3, Some 1)] :: df_row list"
  let ?r = "[(Fin (- 2), Some 1), (Fin (- 1), Some 2)] :: df_row list"
  let ?x = "[(Fin 5, Some 1), (NaN, Some 2)] :: df_row list"
  let ?mu = "\<lambda>j :: int. if j = 1 then 2 else (3 :: rat)"
  have n: "(2 :: int) \<le> 3" by simp
  have i1: "no_infinity (network_values ?d 1)" and i2: "no_infinity (network_values ?d 2)"
    by code_simp+
  have v1: "finite_values (network_values ?d 1) = [2, 2]"
    and v2: "finite_values (network_values ?d 2) = [3]"
    by code_simp+
  have am: "arithmetic_mean [2, 2] = 2" "arithmetic_mean [3] = 3"
    by (simp_all add: arithmetic_mean_def)
  note mean = tr_net_labels_first_dominant [OF n, of ?d, THEN conjunct1, rule_format]
  have m1: "net_mean ?d 1 = Fin 2" using mean [OF i1] by (simp only: v1 am) simp
  have m2: "net_mean ?d 2 = Fin 3" using mean [OF i2] by (simp only: v2 am) simp
  have ids: "[1..3 - 1 :: int] = [1, 2]" by code_simp
  have mu: "\<forall>j \<in> set [1..3 - 1]. net_mean ?d j = Fin (?mu j)"
    unfolding ids using m1 m2 by simp
  have sl: "spec_label ?mu 3 0 = 2" by code_simp
  have rd: "tr_net_labels ?d 3 (Fin 0) = Inr 2"
    using tr_net_labels_first_dominant [OF n, of ?d ?mu 0, THEN conjunct2, THEN conjunct1,
        THEN mp, OF mu]
    by (simp only: sl)
  have ft: "find (dominant ?t 3 (Fin 0)) [1..3 - 1] = Some 1" by code_simp
  have fr: "find (dominant ?r 3 (Fin 0)) [1..3 - 1] = None" by code_simp
  have ex: "list_ex (\<lambda>i. isnan (net_mean ?x i)) [1..3 - 1]" by code_simp
  have rt: "tr_net_labels ?t 3 (Fin 0) = Inr 1"
    using tr_net_labels_first_dominant [OF n, of ?t _ _ "Fin 0", THEN conjunct2, THEN conjunct2,
        THEN conjunct1]
    by (simp only: ft option.case)
  have rr: "tr_net_labels ?r 3 (Fin 0) = Inr 3"
    using tr_net_labels_first_dominant [OF n, of ?r _ _ "Fin 0", THEN conjunct2, THEN conjunct2,
        THEN conjunct1]
    by (simp only: fr option.case)
  have rx: "tr_net_labels ?x 3 (Fin 0) = Inr 3"
    by (rule tr_net_labels_first_dominant [OF n, of ?x _ _ "Fin 0", THEN conjunct2,
          THEN conjunct2, THEN conjunct2, rule_format, OF ex])
  show ?thesis by (intro conjI) (rule n i1 i2 v1 v2 m1 m2 sl rd ft rt fr rr ex rx)+
qed

section \<open>Verification: excluding a network\<close>

lemma unique_old_ids_seven:
  assumes "set (map snd original_atlas_order) = {1..7}"
  shows "unique_old_ids (filter (\<lambda>r. snd r \<noteq> lid) original_atlas_order)
           = filter (\<lambda>a. a \<noteq> lid) [1..7]"
  unfolding unique_old_ids_def
proof (rule sorted_distinct_set_unique)
  let ?f = "filter (\<lambda>r. snd r \<noteq> lid) original_atlas_order"
  show "sorted (sort (remdups (map snd ?f)))" by simp
  show "distinct (sort (remdups (map snd ?f)))" by simp
  show "sorted (filter (\<lambda>a. a \<noteq> lid) [1..7])" by (rule sorted_filter [where f = id, simplified]) simp
  show "distinct (filter (\<lambda>a. a \<noteq> lid) [1..7])" by simp
  have "set (map snd ?f) = {a \<in> set (map snd original_atlas_order). a \<noteq> lid}"
    by auto
  then show "set (sort (remdups (map snd ?f))) = set (filter (\<lambda>a. a \<noteq> lid) [1..7])"
    using assms by auto
qed

lemma network_names:
  "butlast original_labels
     = [''Vis'', ''SomMot'', ''DorsAttn'', ''VentAttn'', ''Limbic'', ''Frontoparietal'', ''Default'']"
  by (simp add: original_labels_def)

lemma limbic_id_of_each:
  "limbic_id_of original_labels ''Vis'' = Inr 1"
  "limbic_id_of original_labels ''SomMot'' = Inr 2"
  "limbic_id_of original_labels ''DorsAttn'' = Inr 3"
  "limbic_id_of original_labels ''VentAttn'' = Inr 4"
  "limbic_id_of original_labels ''Limbic'' = Inr 5"
  "limbic_id_of original_labels ''Frontoparietal'' = Inr 6"
  "limbic_id_of original_labels ''Default'' = Inr 7"
  by code_simp+

lemma remaining_labels_each:
  "length (filter (\<lambda>label. label \<noteq> ''Vis'') original_labels) = 7"
  "length (filter (\<lambda>label. label \<noteq> ''SomMot'') original_labels) = 7"
  "length (filter (\<lambda>label. label \<noteq> ''DorsAttn'') original_labels) = 7"
  "length (filter (\<lambda>label. label \<noteq> ''VentAttn'') original_labels) = 7"
  "length (filter (\<lambda>label. label \<noteq> ''Limbic'') original_labels) = 7"
  "length (filter (\<lambda>label. label \<noteq> ''Frontoparietal'') original_labels) = 7"
  "length (filter (\<lambda>label. label \<noteq> ''Default'') original_labels) = 7"
  by code_simp+

lemma seven_cases:
  assumes "x \<in> set [a1, a2, a3, a4, a5, a6, a7]"
    and "P a1" and "P a2" and "P a3" and "P a4" and "P a5" and "P a6" and "P a7"
  shows "P x"
  using assms by auto

lemma limbic_id_cases:
  assumes "name \<in> set (butlast original_labels)"
  shows "\<exists>lid. limbic_id_of original_labels name = Inr lid \<and> lid \<in> {1, 2, 3, 4, 5, 6, 7}
           \<and> length (filter (\<lambda>label. label \<noteq> name) original_labels) = 7"
proof -
  have mem: "name \<in> set [''Vis'', ''SomMot'', ''DorsAttn'', ''VentAttn'', ''Limbic'',
                     ''Frontoparietal'', ''Default'']"
    using assms by (simp only: network_names)
  show ?thesis
  proof (rule seven_cases [OF mem])
    show "\<exists>lid. limbic_id_of original_labels ''Vis'' = Inr lid \<and> lid \<in> {1, 2, 3, 4, 5, 6, 7}
           \<and> length (filter (\<lambda>label. label \<noteq> ''Vis'') original_labels) = 7"
      by (rule exI [of _ 1]) (simp only: limbic_id_of_each remaining_labels_each, simp)
    show "\<exists>lid. limbic_id_of original_labels ''SomMot'' = Inr lid \<and> lid \<in> {1, 2, 3, 4, 5, 6, 7}
           \<and> length (filter (\<lambda>label. label \<noteq> ''SomMot'') original_labels) = 7"
      by (rule exI [of _ 2]) (simp only: limbic_id_of_each remaining_labels_each, simp)
    show "\<exists>lid. limbic_id_of original_labels ''DorsAttn'' = Inr lid \<and> lid \<in> {1, 2, 3, 4, 5, 6, 7}
           \<and> length (filter (\<lambda>label. label \<noteq> ''DorsAttn'') original_labels) = 7"
      by (rule exI [of _ 3]) (simp only: limbic_id_of_each remaining_labels_each, simp)
    show "\<exists>lid. limbic_id_of original_labels ''VentAttn'' = Inr lid \<and> lid \<in> {1, 2, 3, 4, 5, 6, 7}
           \<and> length (filter (\<lambda>label. label \<noteq> ''VentAttn'') original_labels) = 7"
      by (rule exI [of _ 4]) (simp only: limbic_id_of_each remaining_labels_each, simp)
    show "\<exists>lid. limbic_id_of original_labels ''Limbic'' = Inr lid \<and> lid \<in> {1, 2, 3, 4, 5, 6, 7}
           \<and> length (filter (\<lambda>label. label \<noteq> ''Limbic'') original_labels) = 7"
      by (rule exI [of _ 5]) (simp only: limbic_id_of_each remaining_labels_each, simp)
    show "\<exists>lid. limbic_id_of original_labels ''Frontoparietal'' = Inr lid \<and> lid \<in> {1, 2, 3, 4, 5, 6, 7}
           \<and> length (filter (\<lambda>label. label \<noteq> ''Frontoparietal'') original_labels) = 7"
      by (rule exI [of _ 6]) (simp only: limbic_id_of_each remaining_labels_each, simp)
    show "\<exists>lid. limbic_id_of original_labels ''Default'' = Inr lid \<and> lid \<in> {1, 2, 3, 4, 5, 6, 7}
           \<and> length (filter (\<lambda>label. label \<noteq> ''Default'') original_labels) = 7"
      by (rule exI [of _ 7]) (simp only: limbic_id_of_each remaining_labels_each, simp)
  qed
qed

lemma old_to_new_seven:
  assumes "lid \<in> {1, 2, 3, 4, 5, 6, 7 :: int}"
  shows "old_to_new_id_map (filter (\<lambda>a. a \<noteq> lid) [1..7])
           = map (\<lambda>a. (a, if a < lid then a else a - 1)) (filter (\<lambda>a. a \<noteq> lid) [1..7])"
proof -
  have seven: "[1..7 :: int] = [1, 2, 3, 4, 5, 6, 7]" by code_simp
  have six: "[1..6 :: int] = [1, 2, 3, 4, 5, 6]" by code_simp
  from assms consider "lid = 1" | "lid = 2" | "lid = 3" | "lid = 4" | "lid = 5" | "lid = 6"
    | "lid = 7" by auto
  then show ?thesis
    by cases (simp_all add: old_to_new_id_map_def seven six)
qed

lemma new_ids_image:
  assumes "lid \<in> {1, 2, 3, 4, 5, 6, 7 :: int}"
  shows "(\<lambda>a. if a < lid then a else a - 1) ` ({1..7} - {lid}) = {1..6}"
proof (intro set_eqI iffI)
  fix x assume "x \<in> (\<lambda>a. if a < lid then a else a - 1) ` ({1..7} - {lid})"
  then show "x \<in> {1..6}" using assms by (auto split: if_splits)
next
  fix x :: int assume x: "x \<in> {1..6}"
  show "x \<in> (\<lambda>a. if a < lid then a else a - 1) ` ({1..7} - {lid})"
  proof (cases "x < lid")
    case True
    then have "x \<in> {1..7} - {lid}" using x by auto
    then show ?thesis using True by (auto intro!: image_eqI [where x = x])
  next
    case False
    then have "x + 1 \<in> {1..7} - {lid}" using x by auto
    then show ?thesis using False by (auto intro!: image_eqI [where x = "x + 1"])
  qed
qed

lemma map_of_graph:
  "a \<in> set xs \<Longrightarrow> map_of (map (\<lambda>k. (k, f k)) xs) a = Some (f a)"
  by (induction xs) auto

lemma list_index_nth:
  "list_index xs y = Inr k \<Longrightarrow> k < length xs \<and> xs ! k = y"
proof (induction xs arbitrary: k)
  case Nil
  then show ?case by simp
next
  case (Cons x xs)
  show ?case
  proof (cases "x = y")
    case True
    then show ?thesis using Cons.prems by simp
  next
    case False
    then obtain j where j: "list_index xs y = Inr j" and k: "k = Suc j"
      using Cons.prems by (auto split: sum.splits)
    from Cons.IH [OF j] show ?thesis using k by simp
  qed
qed

lemma limbic_id_of_position:
  assumes "limbic_id_of all_labels name = Inr lid"
  shows "nat (lid - 1) < length all_labels \<and> all_labels ! nat (lid - 1) = name"
proof -
  from assms obtain k where k: "list_index all_labels name = Inr k" and lid: "lid = int k + 1"
    by (auto simp: limbic_id_of_def split: sum.splits)
  have "nat (lid - 1) = k" using lid by simp
  then show ?thesis using list_index_nth [OF k] by simp
qed

lemma reject_label_each:
  "filter (\<lambda>label. label \<noteq> ''Vis'') original_labels ! 6 = ''NOTA''"
  "filter (\<lambda>label. label \<noteq> ''SomMot'') original_labels ! 6 = ''NOTA''"
  "filter (\<lambda>label. label \<noteq> ''DorsAttn'') original_labels ! 6 = ''NOTA''"
  "filter (\<lambda>label. label \<noteq> ''VentAttn'') original_labels ! 6 = ''NOTA''"
  "filter (\<lambda>label. label \<noteq> ''Limbic'') original_labels ! 6 = ''NOTA''"
  "filter (\<lambda>label. label \<noteq> ''Frontoparietal'') original_labels ! 6 = ''NOTA''"
  "filter (\<lambda>label. label \<noteq> ''Default'') original_labels ! 6 = ''NOTA''"
  by code_simp+

lemma reject_label_last:
  assumes "name \<in> set (butlast original_labels)"
  shows "filter (\<lambda>label. label \<noteq> name) original_labels ! 6 = ''NOTA''"
proof -
  have mem: "name \<in> set [''Vis'', ''SomMot'', ''DorsAttn'', ''VentAttn'', ''Limbic'',
                     ''Frontoparietal'', ''Default'']"
    using assms by (simp only: network_names)
  show ?thesis by (rule seven_cases [OF mem]) (rule reject_label_each)+
qed

lemma exclude_network_renumbering:
  assumes seven: "set (map snd original_atlas_order) = {1..7}"
    and name: "name \<in> set (butlast original_labels)"
  shows "\<exists>cfg lid.
           exclude_network original_labels name original_atlas_order = Inr cfg
         \<and> limbic_id_of original_labels name = Inr lid
         \<and> cfg_limbic_id cfg = lid \<and> 1 \<le> lid \<and> lid \<le> 7
         \<and> cfg_nlabels cfg = 7
         \<and> cfg_labels cfg = filter (\<lambda>label. label \<noteq> name) original_labels
         \<and> cfg_old_to_new cfg
             = map (\<lambda>a. (a, if a < lid then a else a - 1)) (filter (\<lambda>a. a \<noteq> lid) [1..7])
         \<and> (\<forall>p \<in> set (cfg_old_to_new cfg). \<forall>q \<in> set (cfg_old_to_new cfg).
                fst p < fst q \<longrightarrow> snd p < snd q)
         \<and> lid \<notin> fst ` set (cfg_old_to_new cfg)
         \<and> cfg_atlas_order cfg
             = map (\<lambda>r. (fst r, Some (if snd r < lid then snd r else snd r - 1)))
                 (filter (\<lambda>r. snd r \<noteq> lid) original_atlas_order)
         \<and> set (map snd (cfg_atlas_order cfg)) = Some ` {1..6}
         \<and> nolim_configuration original_atlas_order
             = exclude_network original_labels ''Limbic'' original_atlas_order"
proof -
  from limbic_id_cases [OF name] obtain lid where
    lid: "limbic_id_of original_labels name = Inr lid"
    and range: "lid \<in> {1, 2, 3, 4, 5, 6, 7}"
    and labels: "length (filter (\<lambda>label. label \<noteq> name) original_labels) = 7"
    by blast
  let ?filtered = "filter (\<lambda>r. snd r \<noteq> lid) original_atlas_order"
  let ?keys = "filter (\<lambda>a. a \<noteq> lid) [1..7]"
  let ?shift = "\<lambda>a. if a < lid then a else a - 1"
  let ?m = "map (\<lambda>a. (a, ?shift a)) ?keys"
  let ?cfg = "\<lparr> cfg_limbic_id = lid,
                cfg_labels = filter (\<lambda>label. label \<noteq> name) original_labels,
                cfg_nlabels = 7,
                cfg_rois_to_keep_indices = map (\<lambda>r. fst r - 1) ?filtered,
                cfg_old_to_new = ?m,
                cfg_atlas_order = map (\<lambda>r. (fst r, map_of ?m (snd r))) ?filtered \<rparr>"
  have m: "old_to_new_id_map (unique_old_ids ?filtered) = ?m"
    using unique_old_ids_seven [OF seven, of lid] old_to_new_seven [OF range] by simp
  have run: "exclude_network original_labels name original_atlas_order = Inr ?cfg"
    using lid labels m by (simp add: exclude_network_def Let_def)
  have inkeys: "\<And>r. r \<in> set ?filtered \<Longrightarrow> snd r \<in> set ?keys"
  proof -
    fix r assume r: "r \<in> set ?filtered"
    then have "snd r \<in> set (map snd original_atlas_order)" by auto
    then have "snd r \<in> {1..7}" using seven by simp
    then show "snd r \<in> set ?keys" using r by simp
  qed
  have atlas: "map (\<lambda>r. (fst r, map_of ?m (snd r))) ?filtered
      = map (\<lambda>r. (fst r, Some (?shift (snd r)))) ?filtered"
  proof (rule map_cong [OF refl])
    fix r assume "r \<in> set ?filtered"
    from map_of_graph [OF inkeys [OF this], of ?shift]
    show "(fst r, map_of ?m (snd r)) = (fst r, Some (?shift (snd r)))" by simp
  qed
  have ids: "snd ` set ?filtered = {1..7} - {lid}"
  proof -
    have "snd ` set ?filtered = {a \<in> set (map snd original_atlas_order). a \<noteq> lid}" by auto
    then show ?thesis using seven by auto
  qed
  have "set (map snd (map (\<lambda>r. (fst r, Some (?shift (snd r)))) ?filtered))
      = Some ` ?shift ` snd ` set ?filtered"
    by (simp only: set_map image_image snd_conv)
  also have "\<dots> = Some ` {1..6}"
    using ids new_ids_image [OF range] by simp
  finally have newids: "set (map snd (map (\<lambda>r. (fst r, Some (?shift (snd r)))) ?filtered))
      = Some ` {1..6}" .
  have order: "\<forall>p \<in> set ?m. \<forall>q \<in> set ?m. fst p < fst q \<longrightarrow> snd p < snd q"
    by auto
  have nokey: "lid \<notin> fst ` set ?m" by auto
  have bounds: "1 \<le> lid \<and> lid \<le> 7" using range by auto
  have nolim: "nolim_configuration original_atlas_order
             = exclude_network original_labels ''Limbic'' original_atlas_order"
    by (simp add: nolim_configuration_def limbic_label_name_def)
  have "exclude_network original_labels name original_atlas_order = Inr ?cfg
         \<and> limbic_id_of original_labels name = Inr lid
         \<and> cfg_limbic_id ?cfg = lid \<and> 1 \<le> lid \<and> lid \<le> 7
         \<and> cfg_nlabels ?cfg = 7
         \<and> cfg_labels ?cfg = filter (\<lambda>label. label \<noteq> name) original_labels
         \<and> cfg_old_to_new ?cfg = ?m
         \<and> (\<forall>p \<in> set (cfg_old_to_new ?cfg). \<forall>q \<in> set (cfg_old_to_new ?cfg).
                fst p < fst q \<longrightarrow> snd p < snd q)
         \<and> lid \<notin> fst ` set (cfg_old_to_new ?cfg)
         \<and> cfg_atlas_order ?cfg
             = map (\<lambda>r. (fst r, Some (?shift (snd r)))) ?filtered
         \<and> set (map snd (cfg_atlas_order ?cfg)) = Some ` {1..6}
         \<and> nolim_configuration original_atlas_order
             = exclude_network original_labels ''Limbic'' original_atlas_order"
    using run lid bounds order nokey atlas newids nolim
    by (simp only: nolim_config.simps simp_thms)
  then show ?thesis by blast
qed

text \<open>
  Claim C4.  For an atlas whose network identifiers are exactly \<open>1..7\<close> and the name of
  one of the seven networks: the configuration is derived without error; the excluded
  identifier \<open>lid\<close> is the 1-based position of the name in the label list; the surviving
  networks are renumbered by the dictionary that keeps the identifiers below \<open>lid\<close> and
  lowers the ones above by one (so their order is kept); the filtered atlas holds exactly
  the regions whose network is not \<open>lid\<close>, in their order, each with its new identifier,
  and the new identifiers are exactly \<open>1..6\<close>; the excluded identifier is not a key of the
  dictionary; the name is no longer a label; and the number of labels, which is the
  reject identifier, is 7, with the reject label at position 7.  The script does this for
  the name \<open>Limbic\<close>.
\<close>

theorem exclude_network_renumbers:
  assumes seven: "set (map snd original_atlas_order) = {1..7}"
    and name: "name \<in> set (butlast original_labels)"
  shows "\<exists>cfg lid.
           exclude_network original_labels name original_atlas_order = Inr cfg
         \<and> limbic_id_of original_labels name = Inr lid
         \<and> nat (lid - 1) < length original_labels
         \<and> original_labels ! nat (lid - 1) = name
         \<and> cfg_limbic_id cfg = lid \<and> 1 \<le> lid \<and> lid \<le> 7
         \<and> cfg_nlabels cfg = 7
         \<and> cfg_labels cfg = filter (\<lambda>label. label \<noteq> name) original_labels
         \<and> name \<notin> set (cfg_labels cfg)
         \<and> cfg_labels cfg ! 6 = ''NOTA''
         \<and> cfg_old_to_new cfg
             = map (\<lambda>a. (a, if a < lid then a else a - 1)) (filter (\<lambda>a. a \<noteq> lid) [1..7])
         \<and> (\<forall>p \<in> set (cfg_old_to_new cfg). \<forall>q \<in> set (cfg_old_to_new cfg).
                fst p < fst q \<longrightarrow> snd p < snd q)
         \<and> lid \<notin> fst ` set (cfg_old_to_new cfg)
         \<and> cfg_atlas_order cfg
             = map (\<lambda>r. (fst r, Some (if snd r < lid then snd r else snd r - 1)))
                 (filter (\<lambda>r. snd r \<noteq> lid) original_atlas_order)
         \<and> set (map snd (cfg_atlas_order cfg)) = Some ` {1..6}
         \<and> nolim_configuration original_atlas_order
             = exclude_network original_labels ''Limbic'' original_atlas_order"
proof -
  from exclude_network_renumbering [OF seven name] obtain cfg lid where
    old: "exclude_network original_labels name original_atlas_order = Inr cfg
         \<and> limbic_id_of original_labels name = Inr lid
         \<and> cfg_limbic_id cfg = lid \<and> 1 \<le> lid \<and> lid \<le> 7
         \<and> cfg_nlabels cfg = 7
         \<and> cfg_labels cfg = filter (\<lambda>label. label \<noteq> name) original_labels
         \<and> cfg_old_to_new cfg
             = map (\<lambda>a. (a, if a < lid then a else a - 1)) (filter (\<lambda>a. a \<noteq> lid) [1..7])
         \<and> (\<forall>p \<in> set (cfg_old_to_new cfg). \<forall>q \<in> set (cfg_old_to_new cfg).
                fst p < fst q \<longrightarrow> snd p < snd q)
         \<and> lid \<notin> fst ` set (cfg_old_to_new cfg)
         \<and> cfg_atlas_order cfg
             = map (\<lambda>r. (fst r, Some (if snd r < lid then snd r else snd r - 1)))
                 (filter (\<lambda>r. snd r \<noteq> lid) original_atlas_order)
         \<and> set (map snd (cfg_atlas_order cfg)) = Some ` {1..6}
         \<and> nolim_configuration original_atlas_order
             = exclude_network original_labels ''Limbic'' original_atlas_order"
    by blast
  have id: "limbic_id_of original_labels name = Inr lid"
    and labels: "cfg_labels cfg = filter (\<lambda>label. label \<noteq> name) original_labels"
    using old by blast+
  have absent: "name \<notin> set (cfg_labels cfg)" unfolding labels by simp
  have reject: "cfg_labels cfg ! 6 = ''NOTA''"
    unfolding labels by (rule reject_label_last [OF name])
  from limbic_id_of_position [OF id] have pos: "nat (lid - 1) < length original_labels"
    "original_labels ! nat (lid - 1) = name" by blast+
  have "exclude_network original_labels name original_atlas_order = Inr cfg
         \<and> limbic_id_of original_labels name = Inr lid
         \<and> nat (lid - 1) < length original_labels
         \<and> original_labels ! nat (lid - 1) = name
         \<and> cfg_limbic_id cfg = lid \<and> 1 \<le> lid \<and> lid \<le> 7
         \<and> cfg_nlabels cfg = 7
         \<and> cfg_labels cfg = filter (\<lambda>label. label \<noteq> name) original_labels
         \<and> name \<notin> set (cfg_labels cfg)
         \<and> cfg_labels cfg ! 6 = ''NOTA''
         \<and> cfg_old_to_new cfg
             = map (\<lambda>a. (a, if a < lid then a else a - 1)) (filter (\<lambda>a. a \<noteq> lid) [1..7])
         \<and> (\<forall>p \<in> set (cfg_old_to_new cfg). \<forall>q \<in> set (cfg_old_to_new cfg).
                fst p < fst q \<longrightarrow> snd p < snd q)
         \<and> lid \<notin> fst ` set (cfg_old_to_new cfg)
         \<and> cfg_atlas_order cfg
             = map (\<lambda>r. (fst r, Some (if snd r < lid then snd r else snd r - 1)))
                 (filter (\<lambda>r. snd r \<noteq> lid) original_atlas_order)
         \<and> set (map snd (cfg_atlas_order cfg)) = Some ` {1..6}
         \<and> nolim_configuration original_atlas_order
             = exclude_network original_labels ''Limbic'' original_atlas_order"
    using old pos absent reject by blast
  then show ?thesis by blast
qed

theorem exclude_network_renumbers_witness:
  "set (map snd [(1 :: int, 1), (2, 2), (3, 3), (4, 4), (5, 5), (6, 6), (7, 7), (8, 5),
                  (9, 7 :: int)])
     = {1..7}
   \<and> ''Limbic'' \<in> set (butlast original_labels)
   \<and> nolim_configuration [(1, 1), (2, 2), (3, 3), (4, 4), (5, 5), (6, 6), (7, 7), (8, 5), (9, 7)]
     = Inr \<lparr> cfg_limbic_id = 5,
             cfg_labels = [''Vis'', ''SomMot'', ''DorsAttn'', ''VentAttn'', ''Frontoparietal'',
                           ''Default'', ''NOTA''],
             cfg_nlabels = 7,
             cfg_rois_to_keep_indices = [0, 1, 2, 3, 5, 6, 8],
             cfg_old_to_new = [(1, 1), (2, 2), (3, 3), (4, 4), (6, 5), (7, 6)],
             cfg_atlas_order = [(1, Some 1), (2, Some 2), (3, Some 3), (4, Some 4), (6, Some 5),
                                (7, Some 6), (9, Some 6)] \<rparr>
   \<and> set (map snd [(1 :: int, Some 1), (2, Some 2), (3, Some 3), (4, Some 4), (6, Some 5),
                      (7, Some 6), (9, Some (6 :: int))]) = Some ` {1..6}
   \<and> (5 :: int) \<notin> fst ` set [(1, 1), (2, 2), (3, 3), (4, 4), (6, 5), (7, 6 :: int)]
   \<and> original_labels ! nat (5 - 1) = ''Limbic''
   \<and> [''Vis'', ''SomMot'', ''DorsAttn'', ''VentAttn'', ''Frontoparietal'', ''Default'',
        ''NOTA''] ! 6 = ''NOTA''"
proof -
  let ?A = "[(1, 1), (2, 2), (3, 3), (4, 4), (5, 5), (6, 6), (7, 7), (8, 5), (9, 7 :: int)]
              :: (int \<times> int) list"
  let ?C = "\<lparr> cfg_limbic_id = 5,
             cfg_labels = [''Vis'', ''SomMot'', ''DorsAttn'', ''VentAttn'', ''Frontoparietal'',
                           ''Default'', ''NOTA''],
             cfg_nlabels = 7,
             cfg_rois_to_keep_indices = [0, 1, 2, 3, 5, 6, 8],
             cfg_old_to_new = [(1, 1), (2, 2), (3, 3), (4, 4), (6, 5), (7, 6)],
             cfg_atlas_order = [(1, Some 1), (2, Some 2), (3, Some 3), (4, Some 4), (6, Some 5),
                                (7, Some 6), (9, Some 6)] \<rparr>"
  have upto: "{1..7 :: int} = set [1, 2, 3, 4, 5, 6, 7]"
  proof -
    have "[1..7 :: int] = [1, 2, 3, 4, 5, 6, 7]" by code_simp
    then show ?thesis by (metis set_upto)
  qed
  have seven: "set (map snd ?A) = {1..7}" unfolding upto by auto
  have name: "''Limbic'' \<in> set (butlast original_labels)"
    by (simp only: network_names) simp
  have run: "exclude_network original_labels ''Limbic'' ?A = Inr ?C" by code_simp
  from exclude_network_renumbers [OF seven name] obtain cfg lid where
    c: "exclude_network original_labels ''Limbic'' ?A = Inr cfg"
    and k: "lid \<notin> fst ` set (cfg_old_to_new cfg)" and l: "cfg_limbic_id cfg = lid"
    and ids: "set (map snd (cfg_atlas_order cfg)) = Some ` {1..6}"
    and pos: "original_labels ! nat (lid - 1) = ''Limbic''"
    and rej: "cfg_labels cfg ! 6 = ''NOTA''"
    and nolim: "nolim_configuration ?A = exclude_network original_labels ''Limbic'' ?A"
    by blast
  have cfg: "cfg = ?C" using c run by simp
  have r: "nolim_configuration ?A = Inr ?C" using nolim run by simp
  have i: "set (map snd (cfg_atlas_order ?C)) = Some ` {1..6}" using ids cfg by simp
  then have i': "set (map snd [(1 :: int, Some 1), (2, Some 2), (3, Some 3), (4, Some 4),
                      (6, Some 5), (7, Some 6), (9, Some (6 :: int))]) = Some ` {1..6}"
    by (simp only: nolim_config.simps)
  have n: "cfg_limbic_id ?C \<notin> fst ` set (cfg_old_to_new ?C)" using k l cfg by simp
  then have n': "(5 :: int) \<notin> fst ` set [(1, 1), (2, 2), (3, 3), (4, 4), (6, 5), (7, 6 :: int)]"
    by simp
  have "lid = 5" using l cfg by simp
  then have p: "original_labels ! nat (5 - 1) = ''Limbic''" using pos by (simp only:)
  have "cfg_labels ?C ! 6 = ''NOTA''" using rej cfg by (simp only:)
  then have q: "[''Vis'', ''SomMot'', ''DorsAttn'', ''VentAttn'', ''Frontoparietal'', ''Default'',
        ''NOTA''] ! 6 = ''NOTA''"
    by (simp only: nolim_config.simps)
  show ?thesis by (intro conjI) (rule seven name r i' n' p q)+
qed

section \<open>Verification: the state maps\<close>

text \<open>
  A state that no timepoint is labelled with has the all-zero vector of the length of the
  regions as its map, in both scripts.
\<close>

lemma state_mean_absent:
  assumes "int i + 1 \<notin> set time_labels"
  shows "state_mean ttss n time_labels i = replicate n (Fin 0)"
proof -
  have "filter id (map (\<lambda>l. l = int i + 1) time_labels) = []"
    using assms by (auto simp: filter_empty_conv)
  then show ?thesis by (simp add: state_mean_def zeros_def)
qed

lemma tmp_df_Inr:
  "tmp_df atlas_order subj_id state vals = Inr block
   \<Longrightarrow> block = state_block atlas_order subj_id state vals \<and> length vals = length atlas_order"
  by (auto simp: tmp_df_def state_block_def split: if_splits)

text \<open>
  The table of the filtered script holds the blocks of exactly the states whose map is
  not entirely NaN; the table of the unfiltered script holds the block of every state.
\<close>

lemma state_maps_nolim_fold:
  assumes "foldE (\<lambda>all_states i.
              let sm = state_mean ttss n time_labels i
              in if \<not> list_all isnan sm
                 then (case tmp_df atlas_order subj_id (labels ! i) sm of
                         Inl e \<Rightarrow> Inl e | Inr block \<Rightarrow> Inr (all_states @ block))
                 else Inr all_states) xs acc = Inr table"
  shows "table = acc @ concat (map (\<lambda>i. state_block atlas_order subj_id (labels ! i)
                                        (state_mean ttss n time_labels i))
                            (filter (\<lambda>i. \<not> list_all isnan (state_mean ttss n time_labels i)) xs))"
  using assms
proof (induction xs arbitrary: acc)
  case Nil
  then show ?case by simp
next
  case (Cons i xs)
  show ?case
  proof (cases "list_all isnan (state_mean ttss n time_labels i)")
    case True
    then show ?thesis using Cons.prems Cons.IH [of acc] by (simp add: Let_def)
  next
    case False
    then obtain block where
      b: "tmp_df atlas_order subj_id (labels ! i) (state_mean ttss n time_labels i) = Inr block"
      and rest: "foldE (\<lambda>all_states i.
              let sm = state_mean ttss n time_labels i
              in if \<not> list_all isnan sm
                 then (case tmp_df atlas_order subj_id (labels ! i) sm of
                         Inl e \<Rightarrow> Inl e | Inr block \<Rightarrow> Inr (all_states @ block))
                 else Inr all_states) xs (acc @ block) = Inr table"
      using Cons.prems by (auto simp: Let_def split: sum.splits)
    have "block = state_block atlas_order subj_id (labels ! i) (state_mean ttss n time_labels i)"
      using tmp_df_Inr [OF b] by simp
    then show ?thesis using Cons.IH [OF rest] False by simp
  qed
qed

lemma state_maps_nolim_table:
  assumes "state_maps_nolim atlas_order labels subj_id ttss n time_labels = Inr table"
  shows "table = concat (map (\<lambda>i. state_block atlas_order subj_id (labels ! i)
                                  (state_mean ttss n time_labels i))
                      (filter (\<lambda>i. \<not> list_all isnan (state_mean ttss n time_labels i))
                         [0..<length labels]))"
  using state_maps_nolim_fold [of ttss n time_labels atlas_order subj_id labels
      "[0..<length labels]" "[]" table] assms
  by (simp add: state_maps_nolim_def)

lemma state_maps_plain_fold:
  assumes "foldE (\<lambda>group_states i.
              case tmp_df atlas_order subj_id (labels ! i) (state_mean ttss n time_labels i) of
                Inl e \<Rightarrow> Inl e | Inr block \<Rightarrow> Inr (group_states @ block)) xs acc = Inr table"
  shows "table = acc @ concat (map (\<lambda>i. state_block atlas_order subj_id (labels ! i)
                                        (state_mean ttss n time_labels i)) xs)"
  using assms
proof (induction xs arbitrary: acc)
  case Nil
  then show ?case by simp
next
  case (Cons i xs)
  then obtain block where
    b: "tmp_df atlas_order subj_id (labels ! i) (state_mean ttss n time_labels i) = Inr block"
    and rest: "foldE (\<lambda>group_states i.
              case tmp_df atlas_order subj_id (labels ! i) (state_mean ttss n time_labels i) of
                Inl e \<Rightarrow> Inl e | Inr block \<Rightarrow> Inr (group_states @ block)) xs (acc @ block)
           = Inr table"
    by (auto split: sum.splits)
  have "block = state_block atlas_order subj_id (labels ! i) (state_mean ttss n time_labels i)"
    using tmp_df_Inr [OF b] by simp
  then show ?case using Cons.IH [OF rest] by simp
qed

lemma state_maps_plain_table:
  assumes "state_maps_plain atlas_order labels subj_id ttss n time_labels = Inr table"
  shows "table = concat (map (\<lambda>i. state_block atlas_order subj_id (labels ! i)
                                  (state_mean ttss n time_labels i)) [0..<length labels])"
  using state_maps_plain_fold [of atlas_order subj_id labels ttss n time_labels
      "[0..<length labels]" "[]" table] assms
  by (simp add: state_maps_plain_def)

text \<open>
  Claim C9 (the unfiltered script departs from it).  A subject whose z-scored matrix is
  NaN in every entry (every region constant over the scan), with an atlas of seven regions,
  one per network, and two timepoints: every timepoint is labelled with the reject
  identifier, so the reject state has an entirely-NaN mean.  The unfiltered script stores
  its seven NaN rows in the table; the filtered script, on the same atlas and the six
  regions it keeps, stores none.
\<close>

theorem unfiltered_script_stores_all_nan_state_map:
  "map_sum id (\<lambda>(time_labels, table).
       (time_labels, map row_value (filter (\<lambda>r. row_state r = ''NOTA'') table)))
     (subject_plain [(1, 1), (2, 2), (3, 3), (4, 4), (5, 5), (6, 6), (7, 7)] 77
        [[NaN, NaN, NaN, NaN, NaN, NaN, NaN], [NaN, NaN, NaN, NaN, NaN, NaN, NaN]] 7)
     = Inr ([8, 8], [NaN, NaN, NaN, NaN, NaN, NaN, NaN])
   \<and> map_sum id (\<lambda>cfg.
         map_sum id (\<lambda>(time_labels, table).
             (time_labels, map row_value (filter (\<lambda>r. row_state r = ''NOTA'') table)))
           (subject_nolim cfg 77
              [[NaN, NaN, NaN, NaN, NaN, NaN], [NaN, NaN, NaN, NaN, NaN, NaN]]))
       (nolim_configuration [(1, 1), (2, 2), (3, 3), (4, 4), (5, 5), (6, 6), (7, 7)])
     = Inr (Inr ([7, 7], []))"
  by code_simp

text \<open>
  The filtered script still stores a state map that is NaN in some regions only: one
  constant region among six.
\<close>

lemma filtered_script_keeps_partly_nan_state_map:
  "map_sum id (\<lambda>cfg.
         map_sum id (\<lambda>(time_labels, table).
             (time_labels, map row_value (filter (\<lambda>r. row_state r = ''NOTA'') table)))
           (subject_nolim cfg 77
              [[Fin (- 1), Fin (- 1), Fin (- 1), Fin (- 1), Fin (- 1), NaN],
               [Fin 1, Fin 1, Fin 1, Fin 1, Fin 1, NaN]]))
       (nolim_configuration [(1, 1), (2, 2), (3, 3), (4, 4), (5, 5), (6, 6), (7, 7)])
     = Inr (Inr ([7, 7], [Fin 0, Fin 0, Fin 0, Fin 0, Fin 0, NaN]))"
  by code_simp

end
